theory Spec2Isabelle
  imports Complex_Main "HOL-Library.Word"
begin

unbundle bit_operations_syntax

section \<open>The controller report and the constants of Joystick.h\<close>

text \<open>
  \<^verbatim>\<open>USB_JoystickReport_Input_t\<close> is declared in Joystick.h, which is not among the
  sources. Joystick.c names six fields of it: the button bitmask \<open>Button\<close>, the
  directional pad \<open>HAT\<close> and the four stick axes \<open>LX\<close>, \<open>LY\<close>, \<open>RX\<close>, \<open>RY\<close>.
  The bitmask is a 16-bit word and the others are bytes. \<^verbatim>\<open>memset\<close> and \<^verbatim>\<open>memcpy\<close>
  act on the whole struct; in the model they are the assignment of a whole record.
\<close>

record report =
  Button :: "16 word"
  HAT :: "8 word"
  LX :: "8 word"
  LY :: "8 word"
  RX :: "8 word"
  RY :: "8 word"

text \<open>
  The macros of Joystick.h that Joystick.c uses. Their values are not in the sources, so
  every function below takes them as the parameter \<open>K\<close>.
\<close>

record joystick_h =
  STICK_MIN :: "8 word"
  STICK_CENTER :: "8 word"
  STICK_MAX :: "8 word"
  HAT_CENTER :: "8 word"
  SWITCH_Y :: "16 word"
  SWITCH_B :: "16 word"
  SWITCH_A :: "16 word"
  SWITCH_X :: "16 word"
  SWITCH_L :: "16 word"
  SWITCH_R :: "16 word"
  SWITCH_PLUS :: "16 word"
  SWITCH_HOME :: "16 word"

text \<open>
  \<^verbatim>\<open>action_t\<close> is an enum of instructions.h (not among the sources). The switch of
  \<^verbatim>\<open>take_action\<close> names nineteen of its values; \<open>other_action n\<close> stands for any
  further value of the enum, which the switch sends to its \<^verbatim>\<open>default\<close> branch.
\<close>

datatype action_t =
    press_a | press_b | press_x | press_y | press_r | press_l | press_plus | press_home
  | hang
  | L_left | L_right | L_up | L_down | L_up_right | L_up_right_slight
  | L_left_slight | L_right_slight | L_up_slight | L_down_slight
  | other_action nat

text \<open>
  \<^verbatim>\<open>command_t\<close> (instructions.h): a step of a sequence, read by \<^verbatim>\<open>do_steps\<close> through
  its members \<open>action\<close> and \<open>duration\<close>. The duration is a count of ticks; the type of
  the member is not in the sources, and the model takes it as a natural number.
\<close>

record command_t =
  action :: action_t
  duration :: nat

section \<open>Report builder\<close>

text \<open>
  \<^verbatim>\<open>reset_report\<close>: the struct is zeroed, then the four axes and the pad are centred.
  The result does not depend on the report passed in.
\<close>

definition reset_report :: "joystick_h \<Rightarrow> report \<Rightarrow> report" where
  "reset_report K ReportData =
     \<lparr>Button = 0, HAT = HAT_CENTER K,
      LX = STICK_CENTER K, LY = STICK_CENTER K,
      RX = STICK_CENTER K, RY = STICK_CENTER K\<rparr>"

fun take_action :: "joystick_h \<Rightarrow> action_t \<Rightarrow> report \<Rightarrow> report" where
  "take_action K press_a ReportData = ReportData\<lparr>Button := Button ReportData OR SWITCH_A K\<rparr>"
| "take_action K press_b ReportData = ReportData\<lparr>Button := Button ReportData OR SWITCH_B K\<rparr>"
| "take_action K press_x ReportData = ReportData\<lparr>Button := Button ReportData OR SWITCH_X K\<rparr>"
| "take_action K press_y ReportData = ReportData\<lparr>Button := Button ReportData OR SWITCH_Y K\<rparr>"
| "take_action K press_r ReportData = ReportData\<lparr>Button := Button ReportData OR SWITCH_R K\<rparr>"
| "take_action K press_l ReportData = ReportData\<lparr>Button := Button ReportData OR SWITCH_L K\<rparr>"
| "take_action K press_plus ReportData =
     ReportData\<lparr>Button := Button ReportData OR SWITCH_PLUS K\<rparr>"
| "take_action K press_home ReportData =
     ReportData\<lparr>Button := Button ReportData OR SWITCH_HOME K\<rparr>"
| "take_action K hang ReportData = reset_report K ReportData"
| "take_action K L_left ReportData = ReportData\<lparr>LX := STICK_MIN K\<rparr>"
| "take_action K L_right ReportData = ReportData\<lparr>LX := STICK_MAX K\<rparr>"
| "take_action K L_up ReportData = ReportData\<lparr>LY := STICK_MIN K\<rparr>"
| "take_action K L_down ReportData = ReportData\<lparr>LY := STICK_MAX K\<rparr>"
| "take_action K L_up_right ReportData = ReportData\<lparr>LY := STICK_MIN K, LX := STICK_MAX K\<rparr>"
| "take_action K L_up_right_slight ReportData = ReportData\<lparr>LY := 60, LX := 200\<rparr>"
| "take_action K L_left_slight ReportData = ReportData\<lparr>LX := 100\<rparr>"
| "take_action K L_right_slight ReportData = ReportData\<lparr>LX := 160\<rparr>"
| "take_action K L_up_slight ReportData = ReportData\<lparr>LY := 100\<rparr>"
| "take_action K L_down_slight ReportData = ReportData\<lparr>LY := 160\<rparr>"
| "take_action K (other_action n) ReportData = reset_report K ReportData"

section \<open>Engine state\<close>

datatype State_t =
    SYNC_CONTROLLER | BREATHE | FLY_TO_NURSERY | IN_OUT_NURSERY | GO_TO_CIRCLE1 | CIRCLE1
  | APPROACH_NPC | SPEAK | GO_TO_CIRCLE2 | GO_TO_CIRCLE3 | OPEN_BOX | SELECT_COL
  | GRAB_EGGS1_PRE | GRAB_EGGS2_PRE | GRAB_EGGS3_PRE | GRAB_EGGS4_PRE | GRAB_EGGS5_PRE
  | GRAB_EGGS6_PRE | SELECT_COL2
  | GRAB_EGGS1_POST | GRAB_EGGS2_POST | GRAB_EGGS3_POST | GRAB_EGGS4_POST | GRAB_EGGS5_POST
  | GRAB_EGGS6_POST | CLOSE_BOX | CIRCLE_CW | FLY_TO_NURSERY2 | SAVE | SLEEP | DONE

text \<open>
  The file-scope variables of Joystick.c. The \<^verbatim>\<open>uint8_t\<close> counters are bytes and wrap
  around. The \<^verbatim>\<open>int\<close> variables are integers; a value the firmware can hold lies
  between \<open>INT_MIN\<close> and \<open>INT_MAX\<close>.
\<close>

record engine =
  state :: State_t
  echoes :: int
  last_report :: report
  duration_count :: int
  bufindex :: int
  portsval :: int
  num_boxes :: "8 word"
  egg_count :: "8 word"
  egg_set :: "8 word"
  breeding_duration :: int
  new_round :: "8 word"

definition ECHOES :: int where
  "ECHOES = 2"

text \<open>
  The range of \<^verbatim>\<open>int\<close>. The firmware is built for an AVR microcontroller (the file
  names the Teensy and the ATmega328P, and uses their watchdog and port registers), where
  \<^verbatim>\<open>int\<close> has 16 bits. This is also the smallest range that C allows, so arithmetic
  that stays inside it is the arithmetic of integers on every target.
\<close>

definition INT_MAX :: int where
  "INT_MAX = 32767"

definition INT_MIN :: int where
  "INT_MIN = - 32768"

text \<open>
  The value of an \<^verbatim>\<open>int\<close> sum that has left the range. Signed overflow is undefined in
  C; the two's complement arithmetic of the target wraps around, and that is what is
  written out here. The two circling states add to counters that any engine state can
  hold, and their sums are wrapped. In \<^verbatim>\<open>do_steps\<close> the counter is compared with the
  duration of a step, whose type is not in the sources, and is left as it is.
\<close>

definition wrap_int :: "int \<Rightarrow> int" where
  "wrap_int k = (k + 32768) mod 65536 - 32768"

section \<open>Sequence runner\<close>

text \<open>
  \<^verbatim>\<open>do_steps\<close>. The read \<^verbatim>\<open>steps[bufindex]\<close> outside the array is undefined in C:
  the model returns \<open>None\<close> there. \<open>steps_size\<close> is what the caller passes,
  \<^verbatim>\<open>ARRAY_SIZE(steps)\<close>. The two comparisons are between integers: with counters that
  are not negative and a table that has a step, C's conversions between \<^verbatim>\<open>int\<close> and
  the unsigned operands do not change their outcome.
\<close>

definition do_steps ::
  "joystick_h \<Rightarrow> command_t list \<Rightarrow> nat \<Rightarrow> report \<Rightarrow> State_t \<Rightarrow> int \<Rightarrow> engine
     \<Rightarrow> (report \<times> engine) option" where
  "do_steps K steps steps_size ReportData nextState egg_counting s =
     (if bufindex s < 0 \<or> int (length steps) \<le> bufindex s then None
      else
        let r1 = take_action K (action (steps ! nat (bufindex s))) ReportData;
            s1 = s\<lparr>duration_count := duration_count s + 1\<rparr>;
            s2 = (if duration_count s1 > int (duration (steps ! nat (bufindex s1)))
                  then s1\<lparr>bufindex := bufindex s1 + 1, duration_count := 0\<rparr>
                  else s1)
        in
          if bufindex s2 > int steps_size - 1 then
            let s3 = s2\<lparr>bufindex := 0, duration_count := 0\<rparr>;
                s4 = (if egg_counting \<noteq> 0 then
                        let s5 = s3\<lparr>egg_count := egg_count s3 - 1, egg_set := egg_set s3 + 1\<rparr>
                        in if egg_set s5 \<ge> 7 then s5\<lparr>egg_set := 1\<rparr> else s5
                      else s3)
            in Some (reset_report K r1, s4\<lparr>state := nextState\<rparr>)
          else Some (r1, s2))"

definition ARRAY_SIZE :: "'a list \<Rightarrow> nat" where
  "ARRAY_SIZE xs = length xs"

section \<open>Configuration: instructions.h, settings.h, egg_cycles.h\<close>

text \<open>
  The step tables of instructions.h, by the names Joystick.c gives them. Their contents
  are not in the sources: they are the parameter \<open>T\<close>.
\<close>

record instructions =
  wake_up_hang :: "command_t list"
  fly_to_breading_steps :: "command_t list"
  go_in_out_nursery :: "command_t list"
  go_to_circle1 :: "command_t list"
  approach :: "command_t list"
  speak :: "command_t list"
  go_to_circle2 :: "command_t list"
  go_to_circle3 :: "command_t list"
  open_box :: "command_t list"
  select_col :: "command_t list"
  grab_eggs1_pre :: "command_t list"
  grab_eggs2_pre :: "command_t list"
  grab_eggs3_pre :: "command_t list"
  grab_eggs4_pre :: "command_t list"
  grab_eggs5_pre :: "command_t list"
  grab_eggs6_pre :: "command_t list"
  grab_eggs1_post :: "command_t list"
  grab_eggs2_post :: "command_t list"
  grab_eggs3_post :: "command_t list"
  grab_eggs4_post :: "command_t list"
  grab_eggs5_post :: "command_t list"
  grab_eggs6_post :: "command_t list"
  close_box :: "command_t list"
  save_game :: "command_t list"
  sleep :: "command_t list"

text \<open>
  The settings of settings.h and the table of egg_cycles.h, the parameter \<open>C\<close>.
  \<open>ALERT_WHEN_DONE\<close> says whether the macro of that name is defined.
\<close>

record settings =
  flame_body :: int
  nat_dex_number :: nat
  egg_cycles :: "nat list"
  number_of_boxes :: "8 word"
  initial_egg_checks :: "8 word"
  subsequent_egg_checks :: "8 word"
  save :: int
  ALERT_WHEN_DONE :: bool

text \<open>The initial values of the file-scope variables.\<close>

definition initial_engine :: "joystick_h \<Rightarrow> settings \<Rightarrow> engine" where
  "initial_engine K C =
     \<lparr>state = SYNC_CONTROLLER, echoes = 0,
      last_report = \<lparr>Button = 0, HAT = 0, LX = 0, LY = 0, RX = 0, RY = 0\<rparr>,
      duration_count = 0, bufindex = 0, portsval = 0,
      num_boxes = number_of_boxes C, egg_count = initial_egg_checks C, egg_set = 1,
      breeding_duration = 5500, new_round = 0\<rparr>"

text \<open>
  The remainder of C's \<^verbatim>\<open>%\<close> on \<^verbatim>\<open>int\<close>: the quotient truncates towards zero, so the
  remainder has the sign of the dividend.
\<close>

definition c_rem :: "int \<Rightarrow> int \<Rightarrow> int" where
  "c_rem a b = sgn a * (\<bar>a\<bar> mod \<bar>b\<bar>)"

text \<open>
  The floating-point expression \<^verbatim>\<open>(1.046 * x) - 32.583\<close> of the sync state, stored in an
  \<^verbatim>\<open>int\<close>. The constants, the converted integer, the product and the difference are each
  rounded to the target's floating-point format: \<open>fl\<close> is that rounding, a parameter.
  The conversion to \<^verbatim>\<open>int\<close> drops the fraction (towards zero).
\<close>

definition double_to_int :: "rat \<Rightarrow> int" where
  "double_to_int q = (if 0 \<le> q then \<lfloor>q\<rfloor> else \<lceil>q\<rceil>)"

definition breeding_formula :: "(rat \<Rightarrow> rat) \<Rightarrow> nat \<Rightarrow> int" where
  "breeding_formula fl x =
     double_to_int (fl (fl (fl (1046 / 1000) * fl (of_nat x)) - fl (32583 / 1000)))"

section \<open>The state machine and the echo buffer\<close>

text \<open>The end of \<^verbatim>\<open>GetNextReport\<close>: the report is copied to \<open>last_report\<close> for the echoes.\<close>

definition echo_refill :: "(report \<times> engine) option \<Rightarrow> (report \<times> engine) option" where
  "echo_refill out =
     (case out of
        None \<Rightarrow> None
      | Some (ReportData, s) \<Rightarrow> Some (ReportData, s\<lparr>last_report := ReportData, echoes := ECHOES\<rparr>))"

text \<open>The two inline circling states: the stick direction of a tick.\<close>

definition circle1_stick :: "joystick_h \<Rightarrow> int \<Rightarrow> report \<Rightarrow> report" where
  "circle1_stick K dc ReportData =
     (if c_rem dc 48 \<le> 11 then take_action K L_left ReportData
      else if c_rem dc 48 \<le> 23 then take_action K L_down ReportData
      else if c_rem dc 48 \<le> 35 then take_action K L_right ReportData
      else if c_rem dc 48 \<le> 47 then take_action K L_up ReportData
      else ReportData)"

definition circle_cw_stick :: "joystick_h \<Rightarrow> int \<Rightarrow> report \<Rightarrow> report" where
  "circle_cw_stick K dc ReportData =
     (let r1 = (if c_rem dc 48 \<le> 11 then take_action K L_right ReportData
                else if c_rem dc 48 \<le> 23 then take_action K L_down ReportData
                else if c_rem dc 48 \<le> 35 then take_action K L_left ReportData
                else if c_rem dc 48 \<le> 47 then take_action K L_up ReportData
                else ReportData)
      in if c_rem dc 24 \<ge> 0 \<and> c_rem dc 24 \<le> 5 then take_action K press_a r1 else r1)"

text \<open>
  The switch on \<open>state\<close> in \<^verbatim>\<open>GetNextReport\<close> ("States and moves management"), on the
  report that \<^verbatim>\<open>reset_report\<close> has prepared. \<open>FLY_TO_NURSERY2\<close> has no case, and the
  switches on \<open>egg_set\<close> have no default: nothing is done there. A read of \<open>egg_cycles\<close>
  outside the table is \<open>None\<close>. In the two circling states \<^verbatim>\<open>duration_count++\<close> and
  \<^verbatim>\<open>breeding_duration + 4200\<close> are sums of \<^verbatim>\<open>int\<close>, wrapped by \<open>wrap_int\<close>.
\<close>

definition states_and_moves ::
  "joystick_h \<Rightarrow> instructions \<Rightarrow> settings \<Rightarrow> (rat \<Rightarrow> rat) \<Rightarrow> report \<Rightarrow> engine
     \<Rightarrow> (report \<times> engine) option" where
  "states_and_moves K T C fl ReportData s0 =
     (case state s0 of
        SYNC_CONTROLLER \<Rightarrow>
          (let s = s0\<lparr>bufindex := 0, duration_count := 0, state := BREATHE\<rparr> in
           if nat_dex_number C < length (egg_cycles C) then
             (if flame_body C \<noteq> 0 then
                Some (ReportData, s\<lparr>breeding_duration :=
                  breeding_formula fl (egg_cycles C ! nat_dex_number C div 2)\<rparr>)
              else
                Some (ReportData, s\<lparr>breeding_duration :=
                  breeding_formula fl (egg_cycles C ! nat_dex_number C)\<rparr>))
           else None)
      | BREATHE \<Rightarrow>
          do_steps K (wake_up_hang T) (ARRAY_SIZE (wake_up_hang T)) ReportData
            FLY_TO_NURSERY 0 s0
      | FLY_TO_NURSERY \<Rightarrow>
          (if egg_set s0 > 1 then
             do_steps K (fly_to_breading_steps T) (ARRAY_SIZE (fly_to_breading_steps T))
               ReportData GO_TO_CIRCLE3 0 s0
           else if new_round s0 \<noteq> 0 then
             do_steps K (fly_to_breading_steps T) (ARRAY_SIZE (fly_to_breading_steps T))
               ReportData GO_TO_CIRCLE1 0 s0
           else
             do_steps K (fly_to_breading_steps T) (ARRAY_SIZE (fly_to_breading_steps T))
               ReportData IN_OUT_NURSERY 0 s0)
      | IN_OUT_NURSERY \<Rightarrow>
          do_steps K (go_in_out_nursery T) (ARRAY_SIZE (go_in_out_nursery T)) ReportData
            GO_TO_CIRCLE1 0 s0
      | GO_TO_CIRCLE1 \<Rightarrow>
          (if new_round s0 \<noteq> 0 \<and> egg_count s0 > 0 then
             do_steps K (go_to_circle1 T) (ARRAY_SIZE (go_to_circle1 T)) ReportData
               APPROACH_NPC 0 s0
           else if egg_count s0 > 0 then
             do_steps K (go_to_circle1 T) (ARRAY_SIZE (go_to_circle1 T)) ReportData
               CIRCLE1 0 s0
           else Some (ReportData, s0\<lparr>egg_set := 1, state := GO_TO_CIRCLE3\<rparr>))
      | CIRCLE1 \<Rightarrow>
          (let s = s0\<lparr>duration_count := wrap_int (duration_count s0 + 1)\<rparr>;
               r = circle1_stick K (duration_count s) ReportData
           in if duration_count s > 350 then
                Some (r, s\<lparr>duration_count := 0, bufindex := 0, state := APPROACH_NPC\<rparr>)
              else Some (r, s))
      | APPROACH_NPC \<Rightarrow>
          do_steps K (approach T) (ARRAY_SIZE (approach T)) ReportData SPEAK 0
            (s0\<lparr>new_round := 0\<rparr>)
      | SPEAK \<Rightarrow>
          do_steps K (speak T) (ARRAY_SIZE (speak T)) ReportData GO_TO_CIRCLE2 1 s0
      | GO_TO_CIRCLE2 \<Rightarrow>
          (if egg_count s0 \<ge> 1 then
             do_steps K (go_to_circle2 T) (ARRAY_SIZE (go_to_circle2 T)) ReportData
               CIRCLE1 0 s0
           else Some (ReportData, s0\<lparr>egg_set := 1, state := GO_TO_CIRCLE3\<rparr>))
      | GO_TO_CIRCLE3 \<Rightarrow>
          do_steps K (go_to_circle3 T) (ARRAY_SIZE (go_to_circle3 T)) ReportData
            OPEN_BOX 0 s0
      | OPEN_BOX \<Rightarrow>
          do_steps K (open_box T) (ARRAY_SIZE (open_box T)) ReportData SELECT_COL 0 s0
      | SELECT_COL \<Rightarrow>
          (if egg_set s0 = 1 then
             do_steps K (select_col T) (ARRAY_SIZE (select_col T)) ReportData
               GRAB_EGGS1_PRE 0 s0
           else if egg_set s0 = 2 then
             do_steps K (select_col T) (ARRAY_SIZE (select_col T)) ReportData
               GRAB_EGGS2_PRE 0 s0
           else if egg_set s0 = 3 then
             do_steps K (select_col T) (ARRAY_SIZE (select_col T)) ReportData
               GRAB_EGGS3_PRE 0 s0
           else if egg_set s0 = 4 then
             do_steps K (select_col T) (ARRAY_SIZE (select_col T)) ReportData
               GRAB_EGGS4_PRE 0 s0
           else if egg_set s0 = 5 then
             do_steps K (select_col T) (ARRAY_SIZE (select_col T)) ReportData
               GRAB_EGGS5_PRE 0 s0
           else if egg_set s0 = 6 then
             do_steps K (select_col T) (ARRAY_SIZE (select_col T)) ReportData
               GRAB_EGGS6_PRE 0 s0
           else Some (ReportData, s0))
      | GRAB_EGGS1_PRE \<Rightarrow>
          do_steps K (grab_eggs1_pre T) (ARRAY_SIZE (grab_eggs1_pre T)) ReportData
            SELECT_COL2 0 s0
      | GRAB_EGGS2_PRE \<Rightarrow>
          do_steps K (grab_eggs2_pre T) (ARRAY_SIZE (grab_eggs2_pre T)) ReportData
            SELECT_COL2 0 s0
      | GRAB_EGGS3_PRE \<Rightarrow>
          do_steps K (grab_eggs3_pre T) (ARRAY_SIZE (grab_eggs3_pre T)) ReportData
            SELECT_COL2 0 s0
      | GRAB_EGGS4_PRE \<Rightarrow>
          do_steps K (grab_eggs4_pre T) (ARRAY_SIZE (grab_eggs4_pre T)) ReportData
            SELECT_COL2 0 s0
      | GRAB_EGGS5_PRE \<Rightarrow>
          do_steps K (grab_eggs5_pre T) (ARRAY_SIZE (grab_eggs5_pre T)) ReportData
            SELECT_COL2 0 s0
      | GRAB_EGGS6_PRE \<Rightarrow>
          do_steps K (grab_eggs6_pre T) (ARRAY_SIZE (grab_eggs6_pre T)) ReportData
            SELECT_COL2 0 s0
      | SELECT_COL2 \<Rightarrow>
          (if egg_set s0 = 1 then
             do_steps K (select_col T) (ARRAY_SIZE (select_col T)) ReportData
               GRAB_EGGS1_POST 0 s0
           else if egg_set s0 = 2 then
             do_steps K (select_col T) (ARRAY_SIZE (select_col T)) ReportData
               GRAB_EGGS2_POST 0 s0
           else if egg_set s0 = 3 then
             do_steps K (select_col T) (ARRAY_SIZE (select_col T)) ReportData
               GRAB_EGGS3_POST 0 s0
           else if egg_set s0 = 4 then
             do_steps K (select_col T) (ARRAY_SIZE (select_col T)) ReportData
               GRAB_EGGS4_POST 0 s0
           else if egg_set s0 = 5 then
             do_steps K (select_col T) (ARRAY_SIZE (select_col T)) ReportData
               GRAB_EGGS5_POST 0 s0
           else if egg_set s0 = 6 then
             do_steps K (select_col T) (ARRAY_SIZE (select_col T)) ReportData
               GRAB_EGGS6_POST 0 s0
           else Some (ReportData, s0))
      | GRAB_EGGS1_POST \<Rightarrow>
          do_steps K (grab_eggs1_post T) (ARRAY_SIZE (grab_eggs1_post T)) ReportData
            CLOSE_BOX 0 s0
      | GRAB_EGGS2_POST \<Rightarrow>
          do_steps K (grab_eggs2_post T) (ARRAY_SIZE (grab_eggs2_post T)) ReportData
            CLOSE_BOX 0 s0
      | GRAB_EGGS3_POST \<Rightarrow>
          do_steps K (grab_eggs3_post T) (ARRAY_SIZE (grab_eggs3_post T)) ReportData
            CLOSE_BOX 0 s0
      | GRAB_EGGS4_POST \<Rightarrow>
          do_steps K (grab_eggs4_post T) (ARRAY_SIZE (grab_eggs4_post T)) ReportData
            CLOSE_BOX 0 s0
      | GRAB_EGGS5_POST \<Rightarrow>
          do_steps K (grab_eggs5_post T) (ARRAY_SIZE (grab_eggs5_post T)) ReportData
            CLOSE_BOX 0 s0
      | GRAB_EGGS6_POST \<Rightarrow>
          do_steps K (grab_eggs6_post T) (ARRAY_SIZE (grab_eggs6_post T)) ReportData
            CLOSE_BOX 0 s0
      | CLOSE_BOX \<Rightarrow>
          do_steps K (close_box T) (ARRAY_SIZE (close_box T)) ReportData CIRCLE_CW 1 s0
      | CIRCLE_CW \<Rightarrow>
          (let s = s0\<lparr>duration_count := wrap_int (duration_count s0 + 1)\<rparr>;
               r = circle_cw_stick K (duration_count s) ReportData
           in if duration_count s > wrap_int (breeding_duration s + 4200) then
                (let s1 = s\<lparr>duration_count := 0, bufindex := 0\<rparr> in
                 if egg_set s1 = 1 then
                   (let s2 = s1\<lparr>egg_count := subsequent_egg_checks C,
                                 num_boxes := num_boxes s1 - 1\<rparr>
                    in if save C = 1 \<or> (save C = 2 \<and> num_boxes s2 \<le> 0) then
                         Some (r, s2\<lparr>state := SAVE\<rparr>)
                       else if num_boxes s2 > 0 then
                         Some (r, s2\<lparr>new_round := 1, state := FLY_TO_NURSERY\<rparr>)
                       else Some (r, s2\<lparr>state := SLEEP\<rparr>))
                 else Some (r, s1\<lparr>state := FLY_TO_NURSERY\<rparr>))
              else Some (r, s))
      | FLY_TO_NURSERY2 \<Rightarrow> Some (ReportData, s0)
      | SAVE \<Rightarrow>
          (if num_boxes s0 > 0 then
             do_steps K (save_game T) (ARRAY_SIZE (save_game T)) ReportData
               FLY_TO_NURSERY 0 (s0\<lparr>new_round := 1\<rparr>)
           else
             do_steps K (save_game T) (ARRAY_SIZE (save_game T)) ReportData SLEEP 0 s0)
      | SLEEP \<Rightarrow>
          do_steps K (sleep T) (ARRAY_SIZE (sleep T)) ReportData DONE 0 s0
      | DONE \<Rightarrow>
          Some (ReportData,
            if ALERT_WHEN_DONE C then s0\<lparr>portsval := NOT (portsval s0)\<rparr> else s0))"

text \<open>
  \<^verbatim>\<open>GetNextReport\<close>. \<open>ReportData0\<close> is the caller's buffer. With echoes left, the last
  report is copied into it and nothing else happens. Otherwise the switch runs; every
  case of it leaves by \<^verbatim>\<open>break\<close>, to the refill of the echo buffer, but \<open>DONE\<close>, which
  returns.
\<close>

definition GetNextReport ::
  "joystick_h \<Rightarrow> instructions \<Rightarrow> settings \<Rightarrow> (rat \<Rightarrow> rat) \<Rightarrow> report \<Rightarrow> engine
     \<Rightarrow> (report \<times> engine) option" where
  "GetNextReport K T C fl ReportData0 s0 =
     (let ReportData = reset_report K ReportData0 in
      if echoes s0 > 0 then Some (last_report s0, s0\<lparr>echoes := echoes s0 - 1\<rparr>)
      else
        let out = states_and_moves K T C fl ReportData s0
        in if state s0 = DONE then out else echo_refill out)"

text \<open>
  \<^verbatim>\<open>HID_Task\<close> calls \<^verbatim>\<open>GetNextReport\<close> once for each report the host asks for, each
  time on a buffer of its own. \<open>calls\<close> is a run of such calls, one per buffer of the
  list: the reports sent, in order, and the engine after the last one.
\<close>

fun calls ::
  "joystick_h \<Rightarrow> instructions \<Rightarrow> settings \<Rightarrow> (rat \<Rightarrow> rat) \<Rightarrow> report list \<Rightarrow> engine
     \<Rightarrow> (report list \<times> engine) option" where
  "calls K T C fl [] s = Some ([], s)"
| "calls K T C fl (b # bs) s =
     (case GetNextReport K T C fl b s of
        None \<Rightarrow> None
      | Some (r, s') \<Rightarrow>
          (case calls K T C fl bs s' of
             None \<Rightarrow> None
           | Some (rs, s'') \<Rightarrow> Some (r # rs, s'')))"


section \<open>Notions used to state the properties\<close>







text \<open>The move of \<open>egg_set\<close> at a counted completion.\<close>

definition next_slot :: "8 word \<Rightarrow> 8 word" where
  "next_slot w = (if w + 1 \<ge> 7 then 1 else w + 1)"

text \<open>
  The actions that press a button, with the mask each of them sets, and the actions that
  move the left stick: together, every action the switch of \<open>take_action\<close> names but
  \<open>hang\<close>.
\<close>

definition button_mask :: "joystick_h \<Rightarrow> action_t \<Rightarrow> 16 word" where
  "button_mask K a =
     (case a of
        press_a \<Rightarrow> SWITCH_A K | press_b \<Rightarrow> SWITCH_B K | press_x \<Rightarrow> SWITCH_X K
      | press_y \<Rightarrow> SWITCH_Y K | press_r \<Rightarrow> SWITCH_R K | press_l \<Rightarrow> SWITCH_L K
      | press_plus \<Rightarrow> SWITCH_PLUS K | press_home \<Rightarrow> SWITCH_HOME K | _ \<Rightarrow> 0)"

definition button_actions :: "action_t set" where
  "button_actions =
     {press_a, press_b, press_x, press_y, press_r, press_l, press_plus, press_home}"

definition stick_actions :: "action_t set" where
  "stick_actions =
     {L_left, L_right, L_up, L_down, L_up_right, L_up_right_slight,
      L_left_slight, L_right_slight, L_up_slight, L_down_slight}"

text \<open>The neutral report: what \<open>reset_report\<close> leaves in the buffer.\<close>

definition neutral :: "joystick_h \<Rightarrow> report" where
  "neutral K =
     \<lparr>Button = 0, HAT = HAT_CENTER K, LX = STICK_CENTER K, LY = STICK_CENTER K,
      RX = STICK_CENTER K, RY = STICK_CENTER K\<rparr>"

text \<open>
  The report of tick \<open>j\<close> of the first circle, counted from the entry into the state:
  the direction follows \<open>j mod 48\<close> in four bands of twelve.
\<close>

definition circle1_report :: "joystick_h \<Rightarrow> nat \<Rightarrow> report" where
  "circle1_report K j =
     (if j mod 48 \<le> 11 then take_action K L_left (neutral K)
      else if j mod 48 \<le> 23 then take_action K L_down (neutral K)
      else if j mod 48 \<le> 35 then take_action K L_right (neutral K)
      else take_action K L_up (neutral K))"

text \<open>
  What the properties ask of the target's floating-point arithmetic: a value between
  1 and \<open>2 ^ 20\<close> is rounded with a relative error of at most \<open>2 ^ -20\<close>. The IEEE
  single and double formats do so with room to spare, in every rounding mode; nothing is
  asked outside that range.
\<close>

definition accurate :: "(rat \<Rightarrow> rat) \<Rightarrow> bool" where
  "accurate fl = (\<forall>q. 1 \<le> q \<and> q \<le> 2 ^ 20 \<longrightarrow> \<bar>fl q - q\<bar> \<le> q / 2 ^ 20)"

text \<open>
  A well-formed configuration: every step table has a step (a C array has at least one
  element), and the species' index is inside \<open>egg_cycles\<close>.
\<close>

definition tables_nonempty :: "instructions \<Rightarrow> bool" where
  "tables_nonempty T =
     (wake_up_hang T \<noteq> [] \<and> fly_to_breading_steps T \<noteq> [] \<and> go_in_out_nursery T \<noteq> []
      \<and> go_to_circle1 T \<noteq> [] \<and> approach T \<noteq> [] \<and> speak T \<noteq> [] \<and> go_to_circle2 T \<noteq> []
      \<and> go_to_circle3 T \<noteq> [] \<and> open_box T \<noteq> [] \<and> select_col T \<noteq> []
      \<and> grab_eggs1_pre T \<noteq> [] \<and> grab_eggs2_pre T \<noteq> [] \<and> grab_eggs3_pre T \<noteq> []
      \<and> grab_eggs4_pre T \<noteq> [] \<and> grab_eggs5_pre T \<noteq> [] \<and> grab_eggs6_pre T \<noteq> []
      \<and> grab_eggs1_post T \<noteq> [] \<and> grab_eggs2_post T \<noteq> [] \<and> grab_eggs3_post T \<noteq> []
      \<and> grab_eggs4_post T \<noteq> [] \<and> grab_eggs5_post T \<noteq> [] \<and> grab_eggs6_post T \<noteq> []
      \<and> close_box T \<noteq> [] \<and> save_game T \<noteq> [] \<and> sleep T \<noteq> [])"

text \<open>The table each state runs through \<open>do_steps\<close>, if it runs one.\<close>

fun table_of :: "instructions \<Rightarrow> State_t \<Rightarrow> command_t list option" where
  "table_of T BREATHE = Some (wake_up_hang T)"
| "table_of T FLY_TO_NURSERY = Some (fly_to_breading_steps T)"
| "table_of T IN_OUT_NURSERY = Some (go_in_out_nursery T)"
| "table_of T GO_TO_CIRCLE1 = Some (go_to_circle1 T)"
| "table_of T APPROACH_NPC = Some (approach T)"
| "table_of T SPEAK = Some (speak T)"
| "table_of T GO_TO_CIRCLE2 = Some (go_to_circle2 T)"
| "table_of T GO_TO_CIRCLE3 = Some (go_to_circle3 T)"
| "table_of T OPEN_BOX = Some (open_box T)"
| "table_of T SELECT_COL = Some (select_col T)"
| "table_of T GRAB_EGGS1_PRE = Some (grab_eggs1_pre T)"
| "table_of T GRAB_EGGS2_PRE = Some (grab_eggs2_pre T)"
| "table_of T GRAB_EGGS3_PRE = Some (grab_eggs3_pre T)"
| "table_of T GRAB_EGGS4_PRE = Some (grab_eggs4_pre T)"
| "table_of T GRAB_EGGS5_PRE = Some (grab_eggs5_pre T)"
| "table_of T GRAB_EGGS6_PRE = Some (grab_eggs6_pre T)"
| "table_of T SELECT_COL2 = Some (select_col T)"
| "table_of T GRAB_EGGS1_POST = Some (grab_eggs1_post T)"
| "table_of T GRAB_EGGS2_POST = Some (grab_eggs2_post T)"
| "table_of T GRAB_EGGS3_POST = Some (grab_eggs3_post T)"
| "table_of T GRAB_EGGS4_POST = Some (grab_eggs4_post T)"
| "table_of T GRAB_EGGS5_POST = Some (grab_eggs5_post T)"
| "table_of T GRAB_EGGS6_POST = Some (grab_eggs6_post T)"
| "table_of T CLOSE_BOX = Some (close_box T)"
| "table_of T SAVE = Some (save_game T)"
| "table_of T SLEEP = Some (sleep T)"
| "table_of T SYNC_CONTROLLER = None"
| "table_of T CIRCLE1 = None"
| "table_of T CIRCLE_CW = None"
| "table_of T FLY_TO_NURSERY2 = None"
| "table_of T DONE = None"

text \<open>
  The invariant of the engine: \<open>egg_set\<close> is one of the six columns, and \<open>bufindex\<close> is
  inside the table of the current state. In the two states that skip their sequence when
  no egg is left, a cursor that has left the start means an egg is left.
\<close>

definition cursor_in_table :: "instructions \<Rightarrow> engine \<Rightarrow> bool" where
  "cursor_in_table T s =
     (case table_of T (state s) of
        None \<Rightarrow> True
      | Some tb \<Rightarrow>
          bufindex s = 0 \<or>
          (0 \<le> bufindex s \<and> bufindex s < int (length tb) \<and>
           (if state s = GO_TO_CIRCLE1 \<or> state s = GO_TO_CIRCLE2 then egg_count s > 0 else True)))"

definition engine_inv :: "instructions \<Rightarrow> engine \<Rightarrow> bool" where
  "engine_inv T s = (egg_set s \<in> {1, 2, 3, 4, 5, 6} \<and> cursor_in_table T s)"

subsection \<open>Concrete inputs\<close>

text \<open>
  The values the Pokken pad's descriptor gives the macros (sticks from 0 to 255 with the
  centre at 128, the pad centred at 8, one bit for each button), a configuration and
  short sequences, for the theorems evaluated on concrete inputs.
\<close>

definition pokken_pad :: joystick_h where
  "pokken_pad =
     \<lparr>STICK_MIN = 0, STICK_CENTER = 128, STICK_MAX = 255, HAT_CENTER = 8,
      SWITCH_Y = 1, SWITCH_B = 2, SWITCH_A = 4, SWITCH_X = 8, SWITCH_L = 16, SWITCH_R = 32,
      SWITCH_PLUS = 512, SWITCH_HOME = 4096\<rparr>"

definition demo_settings :: settings where
  "demo_settings =
     \<lparr>flame_body = 0, nat_dex_number = 0, egg_cycles = [6400], number_of_boxes = 2,
      initial_egg_checks = 10, subsequent_egg_checks = 5, save = 2, ALERT_WHEN_DONE = False\<rparr>"

definition two_steps :: "command_t list" where
  "two_steps = [\<lparr>action = press_a, duration = 0\<rparr>, \<lparr>action = hang, duration = 0\<rparr>]"

definition start_engine :: engine where
  "start_engine = initial_engine pokken_pad demo_settings\<lparr>state := BREATHE\<rparr>"


definition demo_tables :: instructions where
  "demo_tables =
     \<lparr>wake_up_hang = two_steps, fly_to_breading_steps = two_steps,
      go_in_out_nursery = two_steps, go_to_circle1 = two_steps, approach = two_steps,
      speak = two_steps, go_to_circle2 = two_steps, go_to_circle3 = two_steps,
      open_box = two_steps, select_col = two_steps,
      grab_eggs1_pre = two_steps, grab_eggs2_pre = two_steps, grab_eggs3_pre = two_steps,
      grab_eggs4_pre = two_steps, grab_eggs5_pre = two_steps, grab_eggs6_pre = two_steps,
      grab_eggs1_post = two_steps, grab_eggs2_post = two_steps, grab_eggs3_post = two_steps,
      grab_eggs4_post = two_steps, grab_eggs5_post = two_steps, grab_eggs6_post = two_steps,
      close_box = two_steps, save_game = two_steps, sleep = two_steps\<rparr>"

text \<open>Arithmetic without rounding error, for the concrete inputs.\<close>

definition exact :: "rat \<Rightarrow> rat" where
  "exact q = q"

definition circling_engine :: engine where
  "circling_engine =
     start_engine\<lparr>state := CIRCLE_CW, duration_count := 9700, breeding_duration := 5500\<rparr>"

definition overflowing_engine :: engine where
  "overflowing_engine = start_engine\<lparr>state := CIRCLE_CW, breeding_duration := 30000\<rparr>"

definition stuck_engine :: engine where
  "stuck_engine = start_engine\<lparr>state := SELECT_COL, egg_set := 7\<rparr>"

definition fresh_circle1 :: engine where
  "fresh_circle1 = start_engine\<lparr>state := CIRCLE1\<rparr>"

section \<open>Properties of the report builder\<close>

text \<open>
  C8. The \<open>hang\<close> action, and any action the switch does not name (the default branch),
  turn every report into the one neutral report: no button, the pad at \<open>HAT_CENTER\<close>, the
  four axes at \<open>STICK_CENTER\<close>. The result is the same for every report passed in, so the
  operation is constant, and applying it twice is applying it once.
\<close>

theorem take_action_hang_neutral:
  "take_action K hang r =
     \<lparr>Button = 0, HAT = HAT_CENTER K, LX = STICK_CENTER K, LY = STICK_CENTER K,
      RX = STICK_CENTER K, RY = STICK_CENTER K\<rparr>
   \<and> take_action K (other_action n) r = take_action K hang r
   \<and> take_action K hang r = take_action K hang r'
   \<and> take_action K (other_action n) r = take_action K (other_action n) r'
   \<and> take_action K hang (take_action K hang r) = take_action K hang r
   \<and> take_action K (other_action n) (take_action K (other_action n) r) =
       take_action K (other_action n) r"
  by (simp add: reset_report_def)

text \<open>
  C9. An action other than \<open>hang\<close> and the default writes only its own fields. Every such
  action leaves \<open>HAT\<close>, \<open>RX\<close> and \<open>RY\<close> as they are. A button action only ORs its mask
  into \<open>Button\<close>: the sticks and the pad are untouched. A left-stick action leaves
  \<open>Button\<close> as it is, and writes \<open>LX\<close> only, \<open>LY\<close> only, or both (the two diagonal
  actions).
\<close>

theorem take_action_frame:
  assumes "a \<noteq> hang" and "\<forall>n. a \<noteq> other_action n"
  shows "HAT (take_action K a r) = HAT r \<and> RX (take_action K a r) = RX r
     \<and> RY (take_action K a r) = RY r
     \<and> (a \<in> button_actions \<or> a \<in> stick_actions)
     \<and> (a \<in> button_actions \<longrightarrow>
           take_action K a r = r\<lparr>Button := Button r OR button_mask K a\<rparr>)
     \<and> (a \<in> stick_actions \<longrightarrow> Button (take_action K a r) = Button r)
     \<and> (a \<in> {L_left, L_right, L_left_slight, L_right_slight} \<longrightarrow>
           LY (take_action K a r) = LY r)
     \<and> (a \<in> {L_up, L_down, L_up_slight, L_down_slight} \<longrightarrow>
           LX (take_action K a r) = LX r)"
  using assms
  by (cases a) (simp_all add: button_actions_def stick_actions_def button_mask_def)

theorem take_action_frame_witness:
  "press_a \<noteq> hang \<and> press_a \<in> button_actions
   \<and> take_action pokken_pad press_a (last_report start_engine) =
       \<lparr>Button = 4, HAT = 0, LX = 0, LY = 0, RX = 0, RY = 0\<rparr>"
proof -
  have h1: "press_a \<noteq> hang" by simp
  have h2: "\<forall>n. press_a \<noteq> other_action n" by simp
  have h3: "press_a \<in> button_actions" by (simp add: button_actions_def)
  from take_action_frame [OF h1 h2, of pokken_pad "last_report start_engine"] h3
  show ?thesis
    by (simp add: button_mask_def pokken_pad_def start_engine_def initial_engine_def)
qed

section \<open>The sequence runner, tick by tick\<close>















section \<open>The egg slot over six counted completions\<close>







section \<open>The echo buffer\<close>

lemma GetNextReport_echo:
  "0 < echoes s \<Longrightarrow>
     GetNextReport K T C fl b s = Some (last_report s, s\<lparr>echoes := echoes s - 1\<rparr>)"
  by (simp add: GetNextReport_def)

lemma states_and_moves_DONE:
  "state s = DONE \<Longrightarrow>
     states_and_moves K T C fl b s =
       Some (b, if ALERT_WHEN_DONE C then s\<lparr>portsval := NOT (portsval s)\<rparr> else s)"
  by (simp add: states_and_moves_def)

lemma GetNextReport_DONE:
  "echoes s \<le> 0 \<Longrightarrow> state s = DONE \<Longrightarrow>
     GetNextReport K T C fl b s =
       Some (reset_report K b, if ALERT_WHEN_DONE C then s\<lparr>portsval := NOT (portsval s)\<rparr> else s)"
  by (simp add: GetNextReport_def states_and_moves_DONE)

lemma GetNextReport_fresh:
  assumes "echoes s \<le> 0" and "state s \<noteq> DONE" and "GetNextReport K T C fl b s = Some (r, s1)"
  shows "last_report s1 = r \<and> echoes s1 = 2"
  using assms
  by (auto simp: GetNextReport_def echo_refill_def ECHOES_def split: option.splits)

lemma reset_report_const: "reset_report K b = reset_report K b'"
  by (simp add: reset_report_def)

text \<open>
  C4. A call that finds \<open>echoes > 0\<close> returns the cached \<open>last_report\<close> and changes
  nothing in the engine but \<open>echoes\<close>, which goes down by one: the state machine does not
  move. After a call that found no echo left and returned the report \<open>r\<close>, the next two
  calls return \<open>r\<close> again, whatever buffers they are given, and the third call finds no
  echo left: it is the next that may differ.
\<close>

theorem echo_invariant:
  "(0 < echoes s \<longrightarrow>
      GetNextReport K T C fl b s = Some (last_report s, s\<lparr>echoes := echoes s - 1\<rparr>))
   \<and> (echoes s \<le> 0 \<and> GetNextReport K T C fl b s = Some (r, s1) \<longrightarrow>
        (\<exists>s2 s3. GetNextReport K T C fl b1 s1 = Some (r, s2)
           \<and> GetNextReport K T C fl b2 s2 = Some (r, s3) \<and> echoes s3 \<le> 0))"
proof (intro conjI impI)
  assume "0 < echoes s"
  then show "GetNextReport K T C fl b s = Some (last_report s, s\<lparr>echoes := echoes s - 1\<rparr>)"
    by (rule GetNextReport_echo)
next
  assume a: "echoes s \<le> 0 \<and> GetNextReport K T C fl b s = Some (r, s1)"
  show "\<exists>s2 s3. GetNextReport K T C fl b1 s1 = Some (r, s2)
           \<and> GetNextReport K T C fl b2 s2 = Some (r, s3) \<and> echoes s3 \<le> 0"
  proof (cases "state s = DONE")
    case True
    from a have e: "echoes s \<le> 0" and g: "GetNextReport K T C fl b s = Some (r, s1)"
      by simp_all
    from g GetNextReport_DONE [OF e True, of K T C fl b]
    have r: "r = reset_report K b"
      and s1: "s1 = (if ALERT_WHEN_DONE C then s\<lparr>portsval := NOT (portsval s)\<rparr> else s)"
      by simp_all
    from s1 a True have 1: "echoes s1 \<le> 0" "state s1 = DONE" by (simp_all split: if_splits)
    let ?s2 = "if ALERT_WHEN_DONE C then s1\<lparr>portsval := NOT (portsval s1)\<rparr> else s1"
    have 2: "echoes ?s2 \<le> 0" "state ?s2 = DONE" using 1 by auto
    let ?s3 = "if ALERT_WHEN_DONE C then ?s2\<lparr>portsval := NOT (portsval ?s2)\<rparr> else ?s2"
    have "GetNextReport K T C fl b1 s1 = Some (r, ?s2)"
      using GetNextReport_DONE [OF 1] r reset_report_const [of K b1 b] by simp
    moreover have "GetNextReport K T C fl b2 ?s2 = Some (r, ?s3)"
      using GetNextReport_DONE [OF 2] r reset_report_const [of K b2 b] by simp
    moreover have "echoes ?s3 \<le> 0" using 1 by auto
    ultimately show ?thesis by blast
  next
    case False
    with a have f: "last_report s1 = r" "echoes s1 = 2"
      using GetNextReport_fresh [of s K T C fl b r s1] by simp_all
    let ?s2 = "s1\<lparr>echoes := echoes s1 - 1\<rparr>"
    let ?s3 = "?s2\<lparr>echoes := echoes ?s2 - 1\<rparr>"
    have "GetNextReport K T C fl b1 s1 = Some (r, ?s2)"
      using f GetNextReport_echo [of s1 K T C fl b1] by simp
    moreover have "GetNextReport K T C fl b2 ?s2 = Some (r, ?s3)"
      using f GetNextReport_echo [of ?s2 K T C fl b2] by simp
    moreover have "echoes ?s3 \<le> 0" using f by simp
    ultimately show ?thesis by blast
  qed
qed


theorem echo_invariant_witness:
  "0 < echoes (start_engine\<lparr>echoes := 2\<rparr>)
   \<and> GetNextReport pokken_pad demo_tables demo_settings exact (last_report start_engine)
        (start_engine\<lparr>echoes := 2\<rparr>) =
       Some (last_report start_engine, start_engine\<lparr>echoes := 1\<rparr>)
   \<and> echoes start_engine \<le> 0
   \<and> GetNextReport pokken_pad demo_tables demo_settings exact (last_report start_engine)
        start_engine =
       Some (\<lparr>Button = 4, HAT = 8, LX = 128, LY = 128, RX = 128, RY = 128\<rparr>,
             start_engine\<lparr>bufindex := 1, echoes := 2,
               last_report := \<lparr>Button = 4, HAT = 8, LX = 128, LY = 128, RX = 128, RY = 128\<rparr>\<rparr>)
   \<and> (\<exists>s2 s3.
         GetNextReport pokken_pad demo_tables demo_settings exact (last_report start_engine)
           (start_engine\<lparr>bufindex := 1, echoes := 2,
              last_report := \<lparr>Button = 4, HAT = 8, LX = 128, LY = 128, RX = 128, RY = 128\<rparr>\<rparr>) =
           Some (\<lparr>Button = 4, HAT = 8, LX = 128, LY = 128, RX = 128, RY = 128\<rparr>, s2)
         \<and> GetNextReport pokken_pad demo_tables demo_settings exact (last_report start_engine) s2 =
           Some (\<lparr>Button = 4, HAT = 8, LX = 128, LY = 128, RX = 128, RY = 128\<rparr>, s3)
         \<and> echoes s3 \<le> 0)"
proof -
  let ?b = "last_report start_engine"
  let ?r = "\<lparr>Button = 4, HAT = 8, LX = 128, LY = 128, RX = 128, RY = 128\<rparr>"
  let ?s1 = "start_engine\<lparr>bufindex := 1, echoes := 2, last_report := ?r\<rparr>"
  have h1: "0 < echoes (start_engine\<lparr>echoes := 2\<rparr>)" by simp
  have h2: "echoes start_engine \<le> 0" by (simp add: start_engine_def initial_engine_def)
  have h3: "GetNextReport pokken_pad demo_tables demo_settings exact ?b start_engine =
      Some (?r, ?s1)"
    by (simp add: GetNextReport_def states_and_moves_def start_engine_def initial_engine_def
        demo_tables_def two_steps_def do_steps_def ARRAY_SIZE_def echo_refill_def ECHOES_def
        reset_report_def pokken_pad_def Let_def)
  from echo_invariant [of "start_engine\<lparr>echoes := 2\<rparr>" pokken_pad demo_tables demo_settings
      exact ?b] h1
  have a: "GetNextReport pokken_pad demo_tables demo_settings exact ?b
        (start_engine\<lparr>echoes := 2\<rparr>) = Some (?b, start_engine\<lparr>echoes := 1\<rparr>)"
    by simp
  from echo_invariant [of start_engine pokken_pad demo_tables demo_settings exact ?b ?r ?s1
      ?b ?b] h2 h3
  have b: "\<exists>s2 s3.
         GetNextReport pokken_pad demo_tables demo_settings exact ?b ?s1 = Some (?r, s2)
         \<and> GetNextReport pokken_pad demo_tables demo_settings exact ?b s2 = Some (?r, s3)
         \<and> echoes s3 \<le> 0"
    by blast
  from h1 a h2 h3 b show ?thesis by blast
qed


section \<open>The clockwise circle\<close>

lemma GetNextReport_tick:
  assumes "echoes s \<le> 0" and "state s \<noteq> DONE"
  shows "GetNextReport K T C fl b s = echo_refill (states_and_moves K T C fl (reset_report K b) s)"
  using assms by (simp add: GetNextReport_def)

lemma wrap_int_in_range: "INT_MIN \<le> k \<Longrightarrow> k \<le> INT_MAX \<Longrightarrow> wrap_int k = k"
  by (simp add: wrap_int_def INT_MIN_def INT_MAX_def)

lemma states_and_moves_CIRCLE_CW:
  assumes "state s = CIRCLE_CW"
  shows "states_and_moves K T C fl rd s =
     Some (circle_cw_stick K (wrap_int (duration_count s + 1)) rd,
       if wrap_int (duration_count s + 1) > wrap_int (breeding_duration s + 4200) then
         (if egg_set s = 1 then
            (if save C = 1 \<or> (save C = 2 \<and> num_boxes s - 1 \<le> 0) then
               s\<lparr>duration_count := 0, bufindex := 0, egg_count := subsequent_egg_checks C,
                 num_boxes := num_boxes s - 1, state := SAVE\<rparr>
             else if num_boxes s - 1 > 0 then
               s\<lparr>duration_count := 0, bufindex := 0, egg_count := subsequent_egg_checks C,
                 num_boxes := num_boxes s - 1, new_round := 1, state := FLY_TO_NURSERY\<rparr>
             else
               s\<lparr>duration_count := 0, bufindex := 0, egg_count := subsequent_egg_checks C,
                 num_boxes := num_boxes s - 1, state := SLEEP\<rparr>)
          else s\<lparr>duration_count := 0, bufindex := 0, state := FLY_TO_NURSERY\<rparr>)
       else s\<lparr>duration_count := wrap_int (duration_count s + 1)\<rparr>)"
  using assms by (simp add: states_and_moves_def Let_def)

text \<open>
  C2, as the code has it. The engine is in \<open>CIRCLE_CW\<close> with no echo left, and the
  counter and the threshold stay in the range of \<^verbatim>\<open>int\<close>: \<open>duration_count\<close> is below
  \<open>INT_MAX\<close> and \<open>breeding_duration + 4200\<close> is at most \<open>INT_MAX\<close>. The tick adds one to
  \<open>duration_count\<close>. The circle ends on this tick exactly when the counter then exceeds
  \<open>breeding_duration + 4200\<close>; otherwise the state stays \<open>CIRCLE_CW\<close> and no counter but
  \<open>duration_count\<close> changes. On the ending tick the cursor is reset. With \<open>egg_set = 1\<close>,
  \<open>egg_count\<close> becomes \<open>subsequent_egg_checks\<close>, \<open>num_boxes\<close> goes down by one, and the
  successor is \<open>SAVE\<close> when \<open>save = 1\<close>, or \<open>save = 2\<close> and the decremented \<open>num_boxes\<close>
  is 0; else \<open>FLY_TO_NURSERY\<close> with \<open>new_round\<close> set when the decremented \<open>num_boxes\<close>
  is above 0; else \<open>SLEEP\<close>. With \<open>egg_set\<close> not 1 the successor is \<open>FLY_TO_NURSERY\<close>
  and no counter changes.
\<close>

theorem circle_cw_termination:
  assumes "state s = CIRCLE_CW" and "echoes s \<le> 0"
    and "INT_MIN \<le> duration_count s" and "duration_count s < INT_MAX"
    and "INT_MIN \<le> breeding_duration s" and "breeding_duration s + 4200 \<le> INT_MAX"
  shows "\<exists>r s'. GetNextReport K T C fl b s = Some (r, s')
     \<and> r = circle_cw_stick K (duration_count s + 1) (reset_report K b)
     \<and> last_report s' = r \<and> echoes s' = 2
     \<and> breeding_duration s' = breeding_duration s \<and> portsval s' = portsval s
     \<and> (if duration_count s + 1 > breeding_duration s + 4200 then
           duration_count s' = 0 \<and> bufindex s' = 0 \<and> egg_set s' = egg_set s
           \<and> (if egg_set s = 1 then
                 egg_count s' = subsequent_egg_checks C \<and> num_boxes s' = num_boxes s - 1
                 \<and> (if save C = 1 \<or> (save C = 2 \<and> num_boxes s - 1 \<le> 0) then
                       state s' = SAVE \<and> new_round s' = new_round s
                     else if num_boxes s - 1 > 0 then
                       state s' = FLY_TO_NURSERY \<and> new_round s' = 1
                     else state s' = SLEEP \<and> new_round s' = new_round s)
               else state s' = FLY_TO_NURSERY \<and> egg_count s' = egg_count s
                 \<and> num_boxes s' = num_boxes s \<and> new_round s' = new_round s)
         else state s' = CIRCLE_CW \<and> duration_count s' = duration_count s + 1
           \<and> bufindex s' = bufindex s \<and> egg_set s' = egg_set s \<and> egg_count s' = egg_count s
           \<and> num_boxes s' = num_boxes s \<and> new_round s' = new_round s)"
proof -
  from assms(1) have d: "state s \<noteq> DONE" by simp
  have c: "wrap_int (duration_count s + 1) = duration_count s + 1"
    using assms(3,4) by (intro wrap_int_in_range) simp_all
  have t: "wrap_int (breeding_duration s + 4200) = breeding_duration s + 4200"
    using assms(5,6) by (intro wrap_int_in_range) simp_all
  from GetNextReport_tick [OF assms(2) d, of K T C fl b]
  show ?thesis
    by (simp add: states_and_moves_CIRCLE_CW [OF assms(1)] c t echo_refill_def ECHOES_def
        assms(1))
qed

theorem circle_cw_termination_witness:
  "state circling_engine = CIRCLE_CW \<and> echoes circling_engine \<le> 0
   \<and> INT_MIN \<le> duration_count circling_engine \<and> duration_count circling_engine < INT_MAX
   \<and> INT_MIN \<le> breeding_duration circling_engine
   \<and> breeding_duration circling_engine + 4200 \<le> INT_MAX
   \<and> duration_count circling_engine + 1 > breeding_duration circling_engine + 4200
   \<and> egg_set circling_engine = 1 \<and> save demo_settings = 2 \<and> num_boxes circling_engine = 2
   \<and> (\<exists>r s'. GetNextReport pokken_pad demo_tables demo_settings exact
          (last_report circling_engine) circling_engine = Some (r, s')
        \<and> state s' = FLY_TO_NURSERY \<and> new_round s' = 1 \<and> num_boxes s' = 1
        \<and> egg_count s' = 5 \<and> duration_count s' = 0 \<and> bufindex s' = 0)"
proof -
  have h1: "state circling_engine = CIRCLE_CW" by (simp add: circling_engine_def)
  have h2: "echoes circling_engine \<le> 0"
    by (simp add: circling_engine_def start_engine_def initial_engine_def)
  have v: "duration_count circling_engine = 9700" "breeding_duration circling_engine = 5500"
    "egg_set circling_engine = 1" "save demo_settings = 2" "num_boxes circling_engine = 2"
    "subsequent_egg_checks demo_settings = 5"
    by (simp_all add: circling_engine_def start_engine_def initial_engine_def demo_settings_def)
  have h3: "INT_MIN \<le> duration_count circling_engine"
    and h4: "duration_count circling_engine < INT_MAX"
    and h5: "INT_MIN \<le> breeding_duration circling_engine"
    and h6: "breeding_duration circling_engine + 4200 \<le> INT_MAX"
    using v by (simp_all add: INT_MIN_def INT_MAX_def)
  from circle_cw_termination [OF h1 h2 h3 h4 h5 h6, of pokken_pad demo_tables demo_settings
      exact "last_report circling_engine"] v
  have "\<exists>r s'. GetNextReport pokken_pad demo_tables demo_settings exact
          (last_report circling_engine) circling_engine = Some (r, s')
        \<and> state s' = FLY_TO_NURSERY \<and> new_round s' = 1 \<and> num_boxes s' = 1
        \<and> egg_count s' = 5 \<and> duration_count s' = 0 \<and> bufindex s' = 0"
    by auto
  with h1 h2 h3 h4 h5 h6 v show ?thesis by simp
qed

text \<open>
  C2 as stated covers every engine state in \<open>CIRCLE_CW\<close>. With \<open>breeding_duration\<close> at
  30000 the threshold \<open>breeding_duration + 4200\<close> is 34200, above \<open>INT_MAX\<close>: the sum of
  the code wraps to -31336. On the first tick the counter is 1, which does not exceed
  34200, and the circle ends all the same, with the box bookkeeping done.
\<close>

theorem circle_cw_overflow_counterexample:
  "state overflowing_engine = CIRCLE_CW
   \<and> duration_count overflowing_engine + 1 = 1
   \<and> breeding_duration overflowing_engine + 4200 = 34200
   \<and> map_option (state \<circ> snd)
        (GetNextReport pokken_pad demo_tables demo_settings exact
           (last_report overflowing_engine) overflowing_engine) = Some FLY_TO_NURSERY
   \<and> map_option (num_boxes \<circ> snd)
        (GetNextReport pokken_pad demo_tables demo_settings exact
           (last_report overflowing_engine) overflowing_engine) = Some 1"
  by (simp add: overflowing_engine_def start_engine_def initial_engine_def demo_settings_def
      GetNextReport_def states_and_moves_def echo_refill_def ECHOES_def wrap_int_def Let_def)

section \<open>A column switch with the egg slot out of range\<close>

lemma reset_report_neutral: "reset_report K b = neutral K"
  by (simp add: reset_report_def neutral_def)

lemma states_and_moves_no_column:
  assumes "state s = SELECT_COL \<or> state s = SELECT_COL2"
    and "egg_set s \<notin> {1, 2, 3, 4, 5, 6}"
  shows "states_and_moves K T C fl rd s = Some (rd, s)"
  using assms by (auto simp: states_and_moves_def)

lemma GetNextReport_no_column:
  assumes "state s = SELECT_COL \<or> state s = SELECT_COL2"
    and "egg_set s \<notin> {1, 2, 3, 4, 5, 6}"
    and "0 < echoes s \<Longrightarrow> last_report s = neutral K"
  shows "\<exists>e. GetNextReport K T C fl b s = Some (neutral K, s\<lparr>last_report := neutral K, echoes := e\<rparr>)"
proof (cases "0 < echoes s")
  case True
  with assms(3) have l: "last_report s = neutral K" by simp
  then have eq: "s\<lparr>echoes := echoes s - 1\<rparr> =
      s\<lparr>last_report := neutral K, echoes := echoes s - 1\<rparr>"
    by (cases s) simp
  have "GetNextReport K T C fl b s =
      Some (neutral K, s\<lparr>last_report := neutral K, echoes := echoes s - 1\<rparr>)"
    unfolding GetNextReport_echo [OF True] l by (simp only: eq)
  then show ?thesis by blast
next
  case False
  then have e: "echoes s \<le> 0" by simp
  from assms(1) have d: "state s \<noteq> DONE" by auto
  have "GetNextReport K T C fl b s =
      Some (neutral K, s\<lparr>last_report := neutral K, echoes := ECHOES\<rparr>)"
    using GetNextReport_tick [OF e d, of K T C fl b]
    by (simp add: states_and_moves_no_column [OF assms(1,2)] echo_refill_def reset_report_neutral)
  then show ?thesis by blast
qed

lemma calls_no_column:
  assumes "state s = SELECT_COL \<or> state s = SELECT_COL2"
    and "egg_set s \<notin> {1, 2, 3, 4, 5, 6}"
    and "0 < echoes s \<Longrightarrow> last_report s = neutral K"
  shows "\<exists>s'. calls K T C fl bs s = Some (replicate (length bs) (neutral K), s')
           \<and> (\<exists>l e. s' = s\<lparr>last_report := l, echoes := e\<rparr>)"
  using assms
proof (induction bs arbitrary: s)
  case Nil
  have "s = s\<lparr>last_report := last_report s, echoes := echoes s\<rparr>" by simp
  then have "\<exists>l e. s = s\<lparr>last_report := l, echoes := e\<rparr>" by blast
  then show ?case by simp
next
  case (Cons b bs)
  from GetNextReport_no_column [OF Cons.prems, of T C fl b]
  obtain e where g: "GetNextReport K T C fl b s =
      Some (neutral K, s\<lparr>last_report := neutral K, echoes := e\<rparr>)" by blast
  let ?s1 = "s\<lparr>last_report := neutral K, echoes := e\<rparr>"
  have "state ?s1 = SELECT_COL \<or> state ?s1 = SELECT_COL2" using Cons.prems(1) by simp
  moreover have "egg_set ?s1 \<notin> {1, 2, 3, 4, 5, 6}" using Cons.prems(2) by simp
  moreover have "0 < echoes ?s1 \<Longrightarrow> last_report ?s1 = neutral K" by simp
  ultimately obtain s' l e' where "calls K T C fl bs ?s1 = Some (replicate (length bs) (neutral K), s')"
    and "s' = ?s1\<lparr>last_report := l, echoes := e'\<rparr>"
    using Cons.IH [of ?s1] by blast
  with g show ?case by auto
qed

text \<open>
  C3, as the code has it. In \<open>SELECT_COL\<close> or \<open>SELECT_COL2\<close> with \<open>egg_set\<close> outside 1..6
  the switch on \<open>egg_set\<close> has no case to run and no default. A tick sends the neutral
  report and changes nothing in the engine but the echo buffer. Every later call returns
  as well (nothing fails), sends the neutral report, and leaves the state, the cursor and
  the counters as they are: the engine stays in that state, and nothing resets it or
  sends it back to the sync state.
\<close>

theorem select_col_out_of_range:
  assumes "state s = SELECT_COL \<or> state s = SELECT_COL2"
    and "egg_set s \<notin> {1, 2, 3, 4, 5, 6}" and "echoes s \<le> 0"
  shows "GetNextReport K T C fl b s =
           Some (neutral K, s\<lparr>last_report := neutral K, echoes := 2\<rparr>)
     \<and> (\<exists>s'. calls K T C fl bs s = Some (replicate (length bs) (neutral K), s')
           \<and> state s' = state s \<and> egg_set s' = egg_set s \<and> bufindex s' = bufindex s
           \<and> duration_count s' = duration_count s \<and> egg_count s' = egg_count s
           \<and> num_boxes s' = num_boxes s \<and> new_round s' = new_round s)"
proof -
  from assms(1) have d: "state s \<noteq> DONE" by auto
  have 1: "GetNextReport K T C fl b s =
           Some (neutral K, s\<lparr>last_report := neutral K, echoes := 2\<rparr>)"
    using GetNextReport_tick [OF assms(3) d, of K T C fl b]
    by (simp add: states_and_moves_no_column [OF assms(1,2)] echo_refill_def
        reset_report_neutral ECHOES_def)
  from assms(3) have "0 < echoes s \<Longrightarrow> last_report s = neutral K" by simp
  from calls_no_column [OF assms(1,2) this, of T C fl bs]
  obtain s' l e where "calls K T C fl bs s = Some (replicate (length bs) (neutral K), s')"
    and "s' = s\<lparr>last_report := l, echoes := e\<rparr>" by blast
  then have "\<exists>s'. calls K T C fl bs s = Some (replicate (length bs) (neutral K), s')
           \<and> state s' = state s \<and> egg_set s' = egg_set s \<and> bufindex s' = bufindex s
           \<and> duration_count s' = duration_count s \<and> egg_count s' = egg_count s
           \<and> num_boxes s' = num_boxes s \<and> new_round s' = new_round s"
    by simp
  with 1 show ?thesis by blast
qed

theorem select_col_out_of_range_witness:
  "state stuck_engine = SELECT_COL \<and> egg_set stuck_engine \<notin> {1, 2, 3, 4, 5, 6}
   \<and> echoes stuck_engine \<le> 0
   \<and> GetNextReport pokken_pad demo_tables demo_settings exact (last_report stuck_engine)
        stuck_engine =
       Some (neutral pokken_pad, stuck_engine\<lparr>last_report := neutral pokken_pad, echoes := 2\<rparr>)"
proof -
  have h1: "state stuck_engine = SELECT_COL \<or> state stuck_engine = SELECT_COL2"
    by (simp add: stuck_engine_def)
  have h2: "egg_set stuck_engine \<notin> {1, 2, 3, 4, 5, 6}" by (simp add: stuck_engine_def)
  have h3: "echoes stuck_engine \<le> 0"
    by (simp add: stuck_engine_def start_engine_def initial_engine_def)
  from select_col_out_of_range [OF h1 h2 h3, of pokken_pad demo_tables demo_settings exact
      "last_report stuck_engine" "[]"] h2 h3
  show ?thesis by (simp add: stuck_engine_def)
qed

text \<open>
  C3 as stated has a default branch that resets and resynchronises, and an engine that
  goes on making progress. With \<open>egg_set = 7\<close> in \<open>SELECT_COL\<close>, six calls (two ticks and
  their echoes) send six neutral reports and leave the engine where it was: the state is
  still \<open>SELECT_COL\<close>, not \<open>SYNC_CONTROLLER\<close>, and \<open>egg_set\<close> is still 7.
\<close>

theorem select_col_no_resync_counterexample:
  "egg_set stuck_engine = 7 \<and> state stuck_engine = SELECT_COL
   \<and> calls pokken_pad demo_tables demo_settings exact
        [last_report stuck_engine, last_report stuck_engine, last_report stuck_engine,
         last_report stuck_engine, last_report stuck_engine, last_report stuck_engine]
        stuck_engine =
       Some ([neutral pokken_pad, neutral pokken_pad, neutral pokken_pad,
              neutral pokken_pad, neutral pokken_pad, neutral pokken_pad],
             stuck_engine\<lparr>last_report := neutral pokken_pad, echoes := 0\<rparr>)
   \<and> state (stuck_engine\<lparr>last_report := neutral pokken_pad, echoes := 0\<rparr>) \<noteq> SYNC_CONTROLLER
   \<and> egg_set (stuck_engine\<lparr>last_report := neutral pokken_pad, echoes := 0\<rparr>) = 7"
  by (simp add: stuck_engine_def start_engine_def initial_engine_def GetNextReport_def
      states_and_moves_def echo_refill_def ECHOES_def reset_report_def neutral_def Let_def)


section \<open>The first circle\<close>

lemma c_rem_nonneg: "0 \<le> a \<Longrightarrow> 0 < b \<Longrightarrow> c_rem a b = a mod b"
  by (cases "a = 0") (simp_all add: c_rem_def)

lemma circle1_stick_tick: "circle1_stick K (int j) (neutral K) = circle1_report K j"
proof -
  have "c_rem (int j) 48 = int (j mod 48)" by (simp add: c_rem_nonneg zmod_int)
  then show ?thesis by (simp add: circle1_stick_def circle1_report_def)
qed

lemma states_and_moves_CIRCLE1:
  assumes "state s = CIRCLE1"
  shows "states_and_moves K T C fl rd s =
     Some (circle1_stick K (wrap_int (duration_count s + 1)) rd,
       if wrap_int (duration_count s + 1) > 350 then
         s\<lparr>duration_count := 0, bufindex := 0, state := APPROACH_NPC\<rparr>
       else s\<lparr>duration_count := wrap_int (duration_count s + 1)\<rparr>)"
  using assms by (simp add: states_and_moves_def Let_def)

lemma calls_append:
  "calls K T C fl (xs @ ys) s =
     (case calls K T C fl xs s of
        None \<Rightarrow> None
      | Some (rs, s') \<Rightarrow>
          (case calls K T C fl ys s' of
             None \<Rightarrow> None
           | Some (rs', s'') \<Rightarrow> Some (rs @ rs', s'')))"
  by (induction xs arbitrary: s) (auto split: option.splits)

lemma calls_tick_echoes:
  assumes "echoes s \<le> 0" and "state s \<noteq> DONE"
    and "GetNextReport K T C fl b1 s = Some (r, s1)"
  shows "calls K T C fl [b1, b2, b3] s = Some ([r, r, r], s1\<lparr>echoes := 0\<rparr>)"
proof -
  from GetNextReport_fresh [OF assms] have f: "last_report s1 = r" "echoes s1 = 2" by simp_all
  have 1: "GetNextReport K T C fl b2 s1 = Some (r, s1\<lparr>echoes := 1\<rparr>)"
    using GetNextReport_echo [of s1 K T C fl b2] f by simp
  have 2: "GetNextReport K T C fl b3 (s1\<lparr>echoes := 1\<rparr>) = Some (r, s1\<lparr>echoes := 0\<rparr>)"
    using GetNextReport_echo [of "s1\<lparr>echoes := 1\<rparr>" K T C fl b3] f by simp
  from assms(3) 1 2 show ?thesis by simp
qed

lemma circle1_tick:
  assumes "state s = CIRCLE1" and "echoes s \<le> 0" and "duration_count s = int n"
    and "n \<le> 350"
  shows "GetNextReport K T C fl b s =
     Some (circle1_report K (Suc n),
       (if 350 \<le> n then s\<lparr>duration_count := 0, bufindex := 0, state := APPROACH_NPC\<rparr>
        else s\<lparr>duration_count := int (Suc n)\<rparr>)
       \<lparr>last_report := circle1_report K (Suc n), echoes := 2\<rparr>)"
proof -
  from assms(1) have d: "state s \<noteq> DONE" by simp
  have w: "wrap_int (int n + 1) = int n + 1"
    using assms(4) by (intro wrap_int_in_range) (simp_all add: INT_MIN_def INT_MAX_def)
  have "wrap_int (duration_count s + 1) = int (Suc n)"
    unfolding assms(3) w by simp
  then show ?thesis
    using GetNextReport_tick [OF assms(2) d, of K T C fl b]
    by (simp add: states_and_moves_CIRCLE1 [OF assms(1)] echo_refill_def ECHOES_def
        reset_report_neutral circle1_stick_tick del: of_nat_Suc)
qed

lemma length_three: "length ys = 3 \<Longrightarrow> \<exists>a b c. ys = [a, b, c]"
  by (auto simp: eval_nat_numeral length_Suc_conv)

lemma circle1_calls:
  assumes "state s = CIRCLE1" and "duration_count s = 0" and "echoes s = 0"
    and "length bs = 3 * n" and "n \<le> 350"
  shows "\<exists>l. calls K T C fl bs s =
     Some (concat (map (\<lambda>j. replicate 3 (circle1_report K j)) [1..<Suc n]),
           s\<lparr>duration_count := int n, last_report := l, echoes := 0\<rparr>)"
  using assms(4,5)
proof (induction n arbitrary: bs)
  case 0
  have "s = s\<lparr>duration_count := 0, last_report := last_report s, echoes := 0\<rparr>"
    using assms(2,3) by (cases s) simp
  then have "\<exists>l. s = s\<lparr>duration_count := 0, last_report := l, echoes := 0\<rparr>" by blast
  with 0 show ?case by simp
next
  case (Suc n)
  let ?xs = "take (3 * n) bs" and ?ys = "drop (3 * n) bs"
  have lx: "length ?xs = 3 * n" using Suc.prems by simp
  have "length ?ys = 3" using Suc.prems by simp
  from length_three [OF this] obtain b1 b2 b3 where ys: "?ys = [b1, b2, b3]" by blast
  from Suc.IH [OF lx] Suc.prems obtain l where
    c: "calls K T C fl ?xs s =
      Some (concat (map (\<lambda>j. replicate 3 (circle1_report K j)) [1..<Suc n]),
            s\<lparr>duration_count := int n, last_report := l, echoes := 0\<rparr>)"
    by auto
  let ?s1 = "s\<lparr>duration_count := int n, last_report := l, echoes := 0\<rparr>"
  have st: "state ?s1 = CIRCLE1" "echoes ?s1 \<le> 0" "duration_count ?s1 = int n"
    using assms(1) by simp_all
  from st(1) have d: "state ?s1 \<noteq> DONE" by simp
  have n: "\<not> 350 \<le> n" using Suc.prems by simp
  then have n': "n \<le> 350" by simp
  note t = circle1_tick [OF st n', of K T C fl b1]
  have e: "calls K T C fl [b1, b2, b3] ?s1 =
      Some (replicate 3 (circle1_report K (Suc n)),
            s\<lparr>duration_count := int (Suc n), last_report := circle1_report K (Suc n),
              echoes := 0\<rparr>)"
    using calls_tick_echoes [OF st(2) d t, of b2 b3] n by (simp add: eval_nat_numeral)
  have "bs = ?xs @ ?ys" by simp
  then have "calls K T C fl bs s = calls K T C fl (?xs @ [b1, b2, b3]) s" using ys by simp
  also have "\<dots> = Some (concat (map (\<lambda>j. replicate 3 (circle1_report K j)) [1..<Suc (Suc n)]),
            s\<lparr>duration_count := int (Suc n), last_report := circle1_report K (Suc n),
              echoes := 0\<rparr>)"
    unfolding calls_append c using e by simp
  finally show ?case by blast
qed

lemma nth_concat_replicate:
  "e < k \<Longrightarrow> i < length xs \<Longrightarrow>
     concat (map (\<lambda>x. replicate k (f x)) xs) ! (k * i + e) = f (xs ! i)"
proof (induction xs arbitrary: i)
  case Nil
  then show ?case by simp
next
  case (Cons x xs)
  show ?case
  proof (cases i)
    case 0
    with Cons.prems show ?thesis by (simp add: nth_append)
  next
    case (Suc j)
    with Cons.prems have "j < length xs" by simp
    from Cons.IH [OF Cons.prems(1) this] Suc show ?thesis
      by (simp add: nth_append add.assoc)
  qed
qed


lemma circle1_last_tick:
  assumes "state s = CIRCLE1" and "duration_count s = 0" and "echoes s = 0"
    and "length bs = 3 * 351"
  shows "\<exists>l. calls K T C fl bs s =
     Some (concat (map (\<lambda>j. replicate 3 (circle1_report K j)) [1..<352]),
           s\<lparr>duration_count := 0, bufindex := 0, state := APPROACH_NPC,
             last_report := l, echoes := 0\<rparr>)"
proof -
  let ?xs = "take (3 * 350) bs" and ?ys = "drop (3 * 350) bs"
  have lx: "length ?xs = 3 * 350" using assms(4) by simp
  have "length ?ys = 3" using assms(4) by simp
  from length_three [OF this] obtain b1 b2 b3 where ys: "?ys = [b1, b2, b3]" by blast
  from circle1_calls [OF assms(1,2,3) lx, of K T C fl] obtain l where
    c: "calls K T C fl ?xs s =
      Some (concat (map (\<lambda>j. replicate 3 (circle1_report K j)) [1..<Suc 350]),
            s\<lparr>duration_count := int 350, last_report := l, echoes := 0\<rparr>)"
    by auto
  let ?s1 = "s\<lparr>duration_count := int 350, last_report := l, echoes := 0\<rparr>"
  have st: "state ?s1 = CIRCLE1" "echoes ?s1 \<le> 0" "duration_count ?s1 = int 350"
    using assms(1) by simp_all
  from st(1) have d: "state ?s1 \<noteq> DONE" by simp
  have n': "(350::nat) \<le> 350" by simp
  note t = circle1_tick [OF st n', of K T C fl b1]
  have e: "calls K T C fl [b1, b2, b3] ?s1 =
      Some (replicate 3 (circle1_report K (Suc 350)),
            s\<lparr>duration_count := 0, bufindex := 0, state := APPROACH_NPC,
              last_report := circle1_report K (Suc 350), echoes := 0\<rparr>)"
    using calls_tick_echoes [OF st(2) d t, of b2 b3] by (simp add: eval_nat_numeral)
  have u: "[1..<352] = [1..<Suc 350] @ [Suc 350]"
    using upt_Suc_append [of 1 "Suc 350"] by simp
  have "calls K T C fl bs s = calls K T C fl (?xs @ [b1, b2, b3]) s"
    by (metis append_take_drop_id ys)
  also have "\<dots> = Some (concat (map (\<lambda>j. replicate 3 (circle1_report K j)) [1..<352]),
            s\<lparr>duration_count := 0, bufindex := 0, state := APPROACH_NPC,
              last_report := circle1_report K (Suc 350), echoes := 0\<rparr>)"
    unfolding calls_append c u using e by simp
  finally show ?thesis by blast
qed

text \<open>
  C5, as the code has it. \<open>CIRCLE1\<close> is entered with the counter at 0 and no echo left,
  and 351 ticks follow, each a call that runs the state machine and two echoes of its
  report. The counter is incremented before the direction is chosen, so tick \<open>j\<close> sends
  the direction of \<open>j mod 48\<close>: left on ticks 1 to 11 (eleven ticks), down on 12 to 23,
  right on 24 to 35, up on 36 to 47, and left again on tick 48. After each of the first
  350 ticks the state is still \<open>CIRCLE1\<close>; tick 351 moves it to \<open>APPROACH_NPC\<close> with the
  cursor reset, whatever the counters are, and leaves the counters as they were.
\<close>

theorem circle1_rotation:
  assumes "state s = CIRCLE1" and "duration_count s = 0" and "echoes s = 0"
    and "length bs = 3 * 351"
  shows "\<exists>rs s'. calls K T C fl bs s = Some (rs, s')
     \<and> (\<forall>j\<in>{1..351}. \<forall>e<3. rs ! (3 * (j - 1) + e) = circle1_report K j)
     \<and> (\<forall>j\<in>{1..11}. rs ! (3 * (j - 1)) = take_action K L_left (neutral K))
     \<and> (\<forall>j\<in>{12..23}. rs ! (3 * (j - 1)) = take_action K L_down (neutral K))
     \<and> (\<forall>j\<in>{24..35}. rs ! (3 * (j - 1)) = take_action K L_right (neutral K))
     \<and> (\<forall>j\<in>{36..47}. rs ! (3 * (j - 1)) = take_action K L_up (neutral K))
     \<and> rs ! (3 * (48 - 1)) = take_action K L_left (neutral K)
     \<and> state s' = APPROACH_NPC \<and> bufindex s' = 0 \<and> duration_count s' = 0
     \<and> egg_count s' = egg_count s \<and> egg_set s' = egg_set s \<and> num_boxes s' = num_boxes s
     \<and> new_round s' = new_round s
     \<and> (\<forall>n<351. \<exists>rs' s''. calls K T C fl (take (3 * n) bs) s = Some (rs', s'')
           \<and> state s'' = CIRCLE1 \<and> duration_count s'' = int n)"
proof -
  let ?rs = "concat (map (\<lambda>j. replicate 3 (circle1_report K j)) [1..<352])"
  from circle1_last_tick [OF assms, of K T C fl] obtain l where
    c: "calls K T C fl bs s =
      Some (?rs, s\<lparr>duration_count := 0, bufindex := 0, state := APPROACH_NPC,
                  last_report := l, echoes := 0\<rparr>)"
    by blast
  have idx: "?rs ! (3 * (j - 1) + e) = circle1_report K j" if "j \<in> {1..351}" "e < 3" for j e
  proof -
    from that have "j - 1 < length [1..<352::nat]" by auto
    from nth_concat_replicate [OF that(2) this, of "circle1_report K"] that(1)
    show ?thesis by simp
  qed
  have idx0: "?rs ! (3 * (j - 1)) = circle1_report K j" if "j \<in> {1..351}" for j
    using idx [OF that, of 0] by simp
  have left: "?rs ! (3 * (j - 1)) = take_action K L_left (neutral K)" if "j \<in> {1..11}" for j
    using that idx0 [of j] by (simp add: circle1_report_def)
  have down: "?rs ! (3 * (j - 1)) = take_action K L_down (neutral K)" if "j \<in> {12..23}" for j
    using that idx0 [of j] by (simp add: circle1_report_def)
  have right: "?rs ! (3 * (j - 1)) = take_action K L_right (neutral K)" if "j \<in> {24..35}" for j
    using that idx0 [of j] by (simp add: circle1_report_def)
  have up: "?rs ! (3 * (j - 1)) = take_action K L_up (neutral K)" if "j \<in> {36..47}" for j
    using that idx0 [of j] by (simp add: circle1_report_def)
  have again: "?rs ! (3 * (48 - 1)) = take_action K L_left (neutral K)"
    using idx0 [of 48] by (simp add: circle1_report_def)
  have before: "\<exists>rs' s''. calls K T C fl (take (3 * n) bs) s = Some (rs', s'')
           \<and> state s'' = CIRCLE1 \<and> duration_count s'' = int n" if "n < 351" for n
  proof -
    from that assms(4) have l: "length (take (3 * n) bs) = 3 * n" and n: "n \<le> 350" by simp_all
    from circle1_calls [OF assms(1,2,3) l n, of K T C fl] assms(1) show ?thesis by auto
  qed
  let ?s' = "s\<lparr>duration_count := 0, bufindex := 0, state := APPROACH_NPC,
                  last_report := l, echoes := 0\<rparr>"
  have fin: "state ?s' = APPROACH_NPC \<and> bufindex ?s' = 0 \<and> duration_count ?s' = 0
     \<and> egg_count ?s' = egg_count s \<and> egg_set ?s' = egg_set s \<and> num_boxes ?s' = num_boxes s
     \<and> new_round ?s' = new_round s" by simp
  from c idx left down right up again fin before show ?thesis by blast
qed


theorem circle1_rotation_witness:
  "state fresh_circle1 = CIRCLE1 \<and> duration_count fresh_circle1 = 0 \<and> echoes fresh_circle1 = 0
   \<and> length (replicate 1053 (last_report fresh_circle1)) = 3 * 351
   \<and> (\<exists>rs s'. calls pokken_pad demo_tables demo_settings exact
          (replicate 1053 (last_report fresh_circle1)) fresh_circle1 = Some (rs, s')
        \<and> rs ! 0 = \<lparr>Button = 0, HAT = 8, LX = 0, LY = 128, RX = 128, RY = 128\<rparr>
        \<and> rs ! 33 = \<lparr>Button = 0, HAT = 8, LX = 128, LY = 255, RX = 128, RY = 128\<rparr>
        \<and> state s' = APPROACH_NPC)"
proof -
  have h1: "state fresh_circle1 = CIRCLE1" by (simp add: fresh_circle1_def)
  have h2: "duration_count fresh_circle1 = 0"
    by (simp add: fresh_circle1_def start_engine_def initial_engine_def)
  have h3: "echoes fresh_circle1 = 0"
    by (simp add: fresh_circle1_def start_engine_def initial_engine_def)
  have h4: "length (replicate 1053 (last_report fresh_circle1)) = 3 * 351" by simp
  from circle1_rotation [OF h1 h2 h3 h4, of pokken_pad demo_tables demo_settings exact]
  obtain rs s' where c: "calls pokken_pad demo_tables demo_settings exact
          (replicate 1053 (last_report fresh_circle1)) fresh_circle1 = Some (rs, s')"
    and l: "\<forall>j\<in>{1..11}. rs ! (3 * (j - 1)) = take_action pokken_pad L_left (neutral pokken_pad)"
    and d: "\<forall>j\<in>{12..23}. rs ! (3 * (j - 1)) = take_action pokken_pad L_down (neutral pokken_pad)"
    and s: "state s' = APPROACH_NPC"
    by blast
  from l have "rs ! (3 * (1 - 1)) = take_action pokken_pad L_left (neutral pokken_pad)"
    by (rule bspec) simp
  then have l0: "rs ! 0 = \<lparr>Button = 0, HAT = 8, LX = 0, LY = 128, RX = 128, RY = 128\<rparr>"
    by (simp add: neutral_def pokken_pad_def)
  from d have "rs ! (3 * (12 - 1)) = take_action pokken_pad L_down (neutral pokken_pad)"
    by (rule bspec) simp
  then have d0: "rs ! 33 = \<lparr>Button = 0, HAT = 8, LX = 128, LY = 255, RX = 128, RY = 128\<rparr>"
    by (simp add: neutral_def pokken_pad_def)
  from h1 h2 h3 h4 c l0 d0 s show ?thesis by blast
qed

text \<open>
  C5 as stated has twelve ticks of left first. From the fresh entry, the report of
  tick 11 (the call of index 30) is left and the report of tick 12 (index 33) is already
  down.
\<close>

theorem circle1_twelfth_tick_counterexample:
  "map_option (hd \<circ> drop 30 \<circ> fst)
     (calls pokken_pad demo_tables demo_settings exact
        (replicate 36 (last_report fresh_circle1)) fresh_circle1) =
     Some \<lparr>Button = 0, HAT = 8, LX = 0, LY = 128, RX = 128, RY = 128\<rparr>
   \<and> map_option (hd \<circ> drop 33 \<circ> fst)
     (calls pokken_pad demo_tables demo_settings exact
        (replicate 36 (last_report fresh_circle1)) fresh_circle1) =
     Some \<lparr>Button = 0, HAT = 8, LX = 128, LY = 255, RX = 128, RY = 128\<rparr>
   \<and> take_action pokken_pad L_left (neutral pokken_pad) =
       \<lparr>Button = 0, HAT = 8, LX = 0, LY = 128, RX = 128, RY = 128\<rparr>
   \<and> take_action pokken_pad L_down (neutral pokken_pad) =
       \<lparr>Button = 0, HAT = 8, LX = 128, LY = 255, RX = 128, RY = 128\<rparr>"
proof -
  let ?rs = "concat (map (\<lambda>j. replicate 3 (circle1_report pokken_pad j)) [1..<Suc 12])"
  have h1: "state fresh_circle1 = CIRCLE1" by (simp add: fresh_circle1_def)
  have h2: "duration_count fresh_circle1 = 0"
    by (simp add: fresh_circle1_def start_engine_def initial_engine_def)
  have h3: "echoes fresh_circle1 = 0"
    by (simp add: fresh_circle1_def start_engine_def initial_engine_def)
  have h4: "length (replicate 36 (last_report fresh_circle1)) = 3 * 12" by simp
  have h5: "(12::nat) \<le> 350" by simp
  from circle1_calls [OF h1 h2 h3 h4 h5, of pokken_pad demo_tables demo_settings exact]
  obtain l where c: "calls pokken_pad demo_tables demo_settings exact
          (replicate 36 (last_report fresh_circle1)) fresh_circle1 =
      Some (?rs, fresh_circle1\<lparr>duration_count := int 12, last_report := l, echoes := 0\<rparr>)"
    by blast
  have len: "length ?rs = 36" by (simp add: length_concat comp_def sum_list_triv)
  have "?rs ! (3 * 10 + 0) = circle1_report pokken_pad ([1..<Suc 12] ! 10)"
    by (rule nth_concat_replicate) simp_all
  then have a: "?rs ! 30 = \<lparr>Button = 0, HAT = 8, LX = 0, LY = 128, RX = 128, RY = 128\<rparr>"
    by (simp add: circle1_report_def neutral_def pokken_pad_def)
  have "?rs ! (3 * 11 + 0) = circle1_report pokken_pad ([1..<Suc 12] ! 11)"
    by (rule nth_concat_replicate) simp_all
  then have b: "?rs ! 33 = \<lparr>Button = 0, HAT = 8, LX = 128, LY = 255, RX = 128, RY = 128\<rparr>"
    by (simp add: circle1_report_def neutral_def pokken_pad_def)
  have "hd (drop 30 ?rs) = ?rs ! 30" "hd (drop 33 ?rs) = ?rs ! 33"
    using len by (simp_all only: hd_drop_conv_nth)
  with a b c show ?thesis by (simp add: neutral_def pokken_pad_def)
qed


section \<open>The sync state\<close>

lemma accurate_bounds:
  assumes "accurate fl" and "1 \<le> q" and "q \<le> 2 ^ 20"
  shows "q - q / 2 ^ 20 \<le> fl q" and "fl q \<le> q + q / 2 ^ 20"
proof -
  from assms have "\<bar>fl q - q\<bar> \<le> q / 2 ^ 20" by (simp add: accurate_def)
  then show "q - q / 2 ^ 20 \<le> fl q" and "fl q \<le> q + q / 2 ^ 20"
    by linarith+
qed

lemma accurate_between:
  assumes "accurate fl" and "1 \<le> lo" and "lo \<le> q" and "q \<le> hi" and "hi \<le> 2 ^ 20"
  shows "lo - lo / 2 ^ 20 \<le> fl q" and "fl q \<le> hi + hi / 2 ^ 20"
proof -
  from assms have q: "1 \<le> q" "q \<le> 2 ^ 20" by simp_all
  have "lo - lo / 2 ^ 20 \<le> q - q / 2 ^ 20" using assms(3) by (simp add: field_simps)
  also have "\<dots> \<le> fl q" by (rule accurate_bounds [OF assms(1) q])
  finally show "lo - lo / 2 ^ 20 \<le> fl q" .
  have "fl q \<le> q + q / 2 ^ 20" by (rule accurate_bounds [OF assms(1) q])
  also have "\<dots> \<le> hi + hi / 2 ^ 20" using assms(4) by (simp add: field_simps)
  finally show "fl q \<le> hi + hi / 2 ^ 20" .
qed

lemma double_to_int_between:
  "rat_of_int n \<le> q \<Longrightarrow> q < rat_of_int n + 1 \<Longrightarrow> 0 \<le> n \<Longrightarrow> double_to_int q = n"
  by (simp add: double_to_int_def floor_unique)

lemma breeding_formula_bounds:
  assumes a: "accurate fl"
    and x: "64 \<le> x" "x \<le> 65535"
  defines "lo \<equiv> \<lambda>q::rat. q - q / 2 ^ 20" and "hi \<equiv> \<lambda>q::rat. q + q / 2 ^ 20"
  defines "v \<equiv> fl (fl (fl (1046 / 1000) * fl (of_nat x)) - fl (32583 / 1000))"
  shows "lo (lo (lo (1046 / 1000) * lo (of_nat x)) - hi (32583 / 1000)) \<le> v"
    and "v \<le> hi (hi (hi (1046 / 1000) * hi (of_nat x)) - lo (32583 / 1000))"
proof -
  have lo: "lo q = q - q / 2 ^ 20" and hi: "hi q = q + q / 2 ^ 20" for q
    by (simp_all add: lo_def hi_def)
  let ?c1 = "fl (1046 / 1000)" and ?c2 = "fl (32583 / 1000)" and ?x = "fl (of_nat x)"
  have x64: "(64::rat) \<le> of_nat x" using x(1) by (metis of_nat_le_iff of_nat_numeral)
  have x65535: "of_nat x \<le> (65535::rat)" using x(2) by (metis of_nat_le_iff of_nat_numeral)
  have c1: "lo (1046 / 1000) \<le> ?c1" "?c1 \<le> hi (1046 / 1000)"
    unfolding lo hi by (rule accurate_bounds [OF a], simp, simp)+
  have c2: "lo (32583 / 1000) \<le> ?c2" "?c2 \<le> hi (32583 / 1000)"
    unfolding lo hi by (rule accurate_bounds [OF a], simp, simp)+
  have x1: "(1::rat) \<le> of_nat x" "rat_of_nat x \<le> 2 ^ 20" using x64 x65535 by simp_all
  have x': "lo (of_nat x) \<le> ?x" "?x \<le> hi (of_nat x)"
    unfolding lo hi by (rule accurate_bounds [OF a x1])+
  have lx: "639 / 10 \<le> lo (of_nat x)"
    using x64 by (simp add: lo field_simps)
  have hx: "hi (of_nat x) \<le> 65536"
    using x65535 by (simp add: hi field_simps)
  have l1: "104 / 100 \<le> lo (1046 / 1000)" by (simp add: lo)
  have h1: "hi (1046 / 1000) \<le> 105 / 100" by (simp add: hi)
  have p_lo: "lo (1046 / 1000) * lo (of_nat x) \<le> ?c1 * ?x"
    using c1(1) x'(1) lx l1 by (intro mult_mono) simp_all
  have p_hi: "?c1 * ?x \<le> hi (1046 / 1000) * hi (of_nat x)"
    using c1 x' lx l1 by (intro mult_mono) simp_all
  have p0: "66 \<le> lo (1046 / 1000) * lo (of_nat x)"
  proof -
    have "104 / 100 * (639 / 10) \<le> lo (1046 / 1000) * lo (of_nat x)"
      using l1 lx by (intro mult_mono) simp_all
    then show ?thesis by simp
  qed
  then have p0': "1 \<le> lo (1046 / 1000) * lo (of_nat x)" by simp
  have p1: "hi (1046 / 1000) * hi (of_nat x) \<le> 68813"
  proof -
    have "0 \<le> hi (of_nat x)" using x' lx x'(1) by simp
    then have "hi (1046 / 1000) * hi (of_nat x) \<le> 105 / 100 * 65536"
      using h1 hx by (intro mult_mono) simp_all
    then show ?thesis by simp
  qed
  then have p1': "hi (1046 / 1000) * hi (of_nat x) \<le> 2 ^ 20" by simp
  have fp: "lo (lo (1046 / 1000) * lo (of_nat x)) \<le> fl (?c1 * ?x)"
    "fl (?c1 * ?x) \<le> hi (hi (1046 / 1000) * hi (of_nat x))"
    unfolding lo [of "lo (1046 / 1000) * lo (of_nat x)"]
      hi [of "hi (1046 / 1000) * hi (of_nat x)"]
    by (rule accurate_between [OF a p0' p_lo p_hi p1'])+
  have d_lo: "lo (lo (1046 / 1000) * lo (of_nat x)) - hi (32583 / 1000) \<le> fl (?c1 * ?x) - ?c2"
    using fp(1) c2(2) by simp
  have d_hi: "fl (?c1 * ?x) - ?c2 \<le> hi (hi (1046 / 1000) * hi (of_nat x)) - lo (32583 / 1000)"
    using fp(2) c2(1) by simp
  have d0: "1 \<le> lo (lo (1046 / 1000) * lo (of_nat x)) - hi (32583 / 1000)"
  proof -
    have "lo 66 \<le> lo (lo (1046 / 1000) * lo (of_nat x))"
      using p0 unfolding lo [of 66] lo [of "lo (1046 / 1000) * lo (of_nat x)"]
      by (simp add: field_simps)
    moreover have "1 + hi (32583 / 1000) \<le> lo 66" by (simp add: lo hi)
    ultimately show ?thesis by simp
  qed
  have d1: "hi (hi (1046 / 1000) * hi (of_nat x)) - lo (32583 / 1000) \<le> 2 ^ 20"
  proof -
    have "hi (hi (1046 / 1000) * hi (of_nat x)) \<le> hi 68813"
      using p1 unfolding hi [of 68813] hi [of "hi (1046 / 1000) * hi (of_nat x)"]
      by (simp add: field_simps)
    moreover have "hi 68813 - lo (32583 / 1000) \<le> 2 ^ 20" by (simp add: lo hi)
    ultimately show ?thesis by simp
  qed
  show "lo (lo (lo (1046 / 1000) * lo (of_nat x)) - hi (32583 / 1000)) \<le> v"
    unfolding v_def lo [of "lo (lo (1046 / 1000) * lo (of_nat x)) - hi (32583 / 1000)"]
    by (rule accurate_between [OF a d0 d_lo d_hi d1])
  show "v \<le> hi (hi (hi (1046 / 1000) * hi (of_nat x)) - lo (32583 / 1000))"
    unfolding v_def hi [of "hi (hi (1046 / 1000) * hi (of_nat x)) - lo (32583 / 1000)"]
    by (rule accurate_between [OF a d0 d_lo d_hi d1])
qed

lemma breeding_formula_6400:
  assumes "accurate fl"
  shows "breeding_formula fl 6400 = 6661"
proof -
  from breeding_formula_bounds [OF assms, of 6400, simplified]
  have "6661 \<le> fl (fl (fl (1046 / 1000) * fl (of_nat 6400)) - fl (32583 / 1000))"
    and "fl (fl (fl (1046 / 1000) * fl (of_nat 6400)) - fl (32583 / 1000)) < 6662"
    by simp_all
  then show ?thesis
    unfolding breeding_formula_def by (intro double_to_int_between) simp_all
qed

lemma breeding_formula_3200:
  assumes "accurate fl"
  shows "breeding_formula fl 3200 = 3314"
proof -
  from breeding_formula_bounds [OF assms, of 3200, simplified]
  have "3314 \<le> fl (fl (fl (1046 / 1000) * fl (of_nat 3200)) - fl (32583 / 1000))"
    and "fl (fl (fl (1046 / 1000) * fl (of_nat 3200)) - fl (32583 / 1000)) < 3315"
    by simp_all
  then show ?thesis
    unfolding breeding_formula_def by (intro double_to_int_between) simp_all
qed


lemma accurate_exact: "accurate exact"
  by (simp add: accurate_def exact_def)

lemma states_and_moves_SYNC:
  assumes "state s = SYNC_CONTROLLER" and "nat_dex_number C < length (egg_cycles C)"
  shows "states_and_moves K T C fl rd s =
     Some (rd, s\<lparr>bufindex := 0, duration_count := 0, state := BREATHE,
       breeding_duration := breeding_formula fl
         (if flame_body C \<noteq> 0 then egg_cycles C ! nat_dex_number C div 2
          else egg_cycles C ! nat_dex_number C)\<rparr>)"
  using assms by (simp add: states_and_moves_def Let_def)

text \<open>
  C7. On the sync tick (no echo left) the cursor is reset, the state becomes \<open>BREATHE\<close>
  and \<open>breeding_duration\<close> is the formula at the species' entry of \<open>egg_cycles\<close>, or at
  half that entry (integer division) when \<open>flame_body\<close> is set. With the entry 6400 and a
  target arithmetic as accurate as asked above, the value stored is 6661 with the flag
  unset: the exact value \<open>1.046 * 6400 - 32.583\<close> is 6661.817, and the conversion to
  \<^verbatim>\<open>int\<close> drops the fraction. With the flag set it is 3314, from 3200.
\<close>

theorem sync_breeding_duration:
  assumes "accurate fl" and "state s = SYNC_CONTROLLER" and "echoes s \<le> 0"
    and "nat_dex_number C < length (egg_cycles C)"
  shows "\<exists>r s'. GetNextReport K T C fl b s = Some (r, s')
     \<and> state s' = BREATHE \<and> bufindex s' = 0 \<and> duration_count s' = 0
     \<and> breeding_duration s' = breeding_formula fl
          (if flame_body C \<noteq> 0 then egg_cycles C ! nat_dex_number C div 2
           else egg_cycles C ! nat_dex_number C)
     \<and> (egg_cycles C ! nat_dex_number C = 6400 \<longrightarrow>
          breeding_duration s' = (if flame_body C \<noteq> 0 then 3314 else 6661))
     \<and> (1046 / 1000 * 6400 - 32583 / 1000 :: rat) = 6661817 / 1000
     \<and> double_to_int (6661817 / 1000) = 6661"
proof -
  from assms(2) have d: "state s \<noteq> DONE" by simp
  let ?x = "egg_cycles C ! nat_dex_number C"
  let ?bd = "breeding_formula fl (if flame_body C \<noteq> 0 then ?x div 2 else ?x)"
  have g: "GetNextReport K T C fl b s =
      Some (neutral K, s\<lparr>bufindex := 0, duration_count := 0, state := BREATHE,
        breeding_duration := ?bd, last_report := neutral K, echoes := 2\<rparr>)"
    using GetNextReport_tick [OF assms(3) d, of K T C fl b]
    by (simp add: states_and_moves_SYNC [OF assms(2,4)] echo_refill_def ECHOES_def
        reset_report_neutral)
  have v: "?bd = (if flame_body C \<noteq> 0 then 3314 else 6661)" if "?x = 6400"
    using that breeding_formula_6400 [OF assms(1)] breeding_formula_3200 [OF assms(1)]
    by simp
  have n: "(1046 / 1000 * 6400 - 32583 / 1000 :: rat) = 6661817 / 1000" by simp
  have t: "double_to_int (6661817 / 1000) = 6661"
    by (rule double_to_int_between) simp_all
  from g v n t show ?thesis by simp
qed

theorem sync_breeding_duration_witness:
  "accurate exact \<and> state (initial_engine pokken_pad demo_settings) = SYNC_CONTROLLER
   \<and> echoes (initial_engine pokken_pad demo_settings) \<le> 0
   \<and> nat_dex_number demo_settings < length (egg_cycles demo_settings)
   \<and> egg_cycles demo_settings ! nat_dex_number demo_settings = 6400
   \<and> flame_body demo_settings = 0
   \<and> (\<exists>r s'. GetNextReport pokken_pad demo_tables demo_settings exact
          (last_report start_engine) (initial_engine pokken_pad demo_settings) = Some (r, s')
        \<and> state s' = BREATHE \<and> breeding_duration s' = 6661)"
proof -
  have h2: "state (initial_engine pokken_pad demo_settings) = SYNC_CONTROLLER"
    by (simp add: initial_engine_def)
  have h3: "echoes (initial_engine pokken_pad demo_settings) \<le> 0"
    by (simp add: initial_engine_def)
  have h4: "nat_dex_number demo_settings < length (egg_cycles demo_settings)"
    by (simp add: demo_settings_def)
  have h5: "egg_cycles demo_settings ! nat_dex_number demo_settings = 6400"
    by (simp add: demo_settings_def)
  have h6: "flame_body demo_settings = 0" by (simp add: demo_settings_def)
  from sync_breeding_duration [OF accurate_exact h2 h3 h4, of pokken_pad demo_tables
      "last_report start_engine"] h5 h6
  have "\<exists>r s'. GetNextReport pokken_pad demo_tables demo_settings exact
          (last_report start_engine) (initial_engine pokken_pad demo_settings) = Some (r, s')
        \<and> state s' = BREATHE \<and> breeding_duration s' = 6661"
    by auto
  with accurate_exact h2 h3 h4 h5 h6 show ?thesis by blast
qed


section \<open>The egg slot stays in range\<close>

lemma next_slot_range: "w \<in> {1, 2, 3, 4, 5, 6} \<Longrightarrow> next_slot w \<in> {1, 2, 3, 4, 5, 6}"
  by (auto simp: next_slot_def)

lemma do_steps_progress:
  assumes "0 \<le> bufindex s" and "bufindex s < int (length tb)"
  shows "\<exists>r s'. do_steps K tb (ARRAY_SIZE tb) rd nx ec s = Some (r, s') \<and>
     ((state s' = state s \<and> egg_set s' = egg_set s \<and> egg_count s' = egg_count s
         \<and> 0 \<le> bufindex s' \<and> bufindex s' < int (length tb))
      \<or> (state s' = nx \<and> bufindex s' = 0
         \<and> egg_set s' = (if ec \<noteq> 0 then next_slot (egg_set s) else egg_set s)))"
  using assms by (auto simp: do_steps_def ARRAY_SIZE_def Let_def next_slot_def)

lemma run_table_inv:
  assumes inv: "engine_inv T s" and tb: "table_of T (state s) = Some tb" and ne: "tb \<noteq> []"
    and go: "state s = GO_TO_CIRCLE1 \<or> state s = GO_TO_CIRCLE2 \<Longrightarrow> egg_count s > 0"
    and s0: "state s0 = state s" "egg_set s0 = egg_set s" "egg_count s0 = egg_count s"
      "bufindex s0 = bufindex s"
  shows "\<exists>r s'. do_steps K tb (ARRAY_SIZE tb) rd nx ec s0 = Some (r, s') \<and> engine_inv T s'"
proof -
  from inv tb ne s0 have b: "0 \<le> bufindex s0" "bufindex s0 < int (length tb)"
    by (auto simp: engine_inv_def cursor_in_table_def)
  from do_steps_progress [OF b, of K rd nx ec] obtain r s' where
    d: "do_steps K tb (ARRAY_SIZE tb) rd nx ec s0 = Some (r, s')"
    and c: "(state s' = state s0 \<and> egg_set s' = egg_set s0 \<and> egg_count s' = egg_count s0
         \<and> 0 \<le> bufindex s' \<and> bufindex s' < int (length tb))
      \<or> (state s' = nx \<and> bufindex s' = 0
         \<and> egg_set s' = (if ec \<noteq> 0 then next_slot (egg_set s0) else egg_set s0))"
    by blast
  from inv have e: "egg_set s \<in> {1, 2, 3, 4, 5, 6}" by (simp add: engine_inv_def)
  from c have "engine_inv T s'"
  proof
    assume "state s' = state s0 \<and> egg_set s' = egg_set s0 \<and> egg_count s' = egg_count s0
         \<and> 0 \<le> bufindex s' \<and> bufindex s' < int (length tb)"
    with e tb s0 go show ?thesis
      by (auto simp: engine_inv_def cursor_in_table_def)
  next
    assume a: "state s' = nx \<and> bufindex s' = 0
         \<and> egg_set s' = (if ec \<noteq> 0 then next_slot (egg_set s0) else egg_set s0)"
    with e s0 next_slot_range [OF e] have "egg_set s' \<in> {1, 2, 3, 4, 5, 6}" by auto
    with a show ?thesis
      by (auto simp: engine_inv_def cursor_in_table_def split: option.splits)
  qed
  with d show ?thesis by blast
qed


lemma one_le_word: "(1 \<le> (w::8 word)) = (0 < w)"
  by (simp add: word_le_nat_alt word_less_nat_alt Suc_le_eq)

lemma states_and_moves_inv:
  assumes inv: "engine_inv T s" and ne: "tables_nonempty T"
    and idx: "nat_dex_number C < length (egg_cycles C)"
  shows "\<exists>r s'. states_and_moves K T C fl rd s = Some (r, s') \<and> engine_inv T s'"
proof -
  from inv have e: "egg_set s \<in> {1, 2, 3, 4, 5, 6}" by (simp add: engine_inv_def)
  show ?thesis
  proof (cases "state s")
    case BREATHE
    with ne show ?thesis
      by (simp add: states_and_moves_def tables_nonempty_def)
        (rule run_table_inv [OF inv]; simp)
  next
    case IN_OUT_NURSERY
    with ne show ?thesis
      by (simp add: states_and_moves_def tables_nonempty_def)
        (rule run_table_inv [OF inv]; simp)
  next
    case SPEAK
    with ne show ?thesis
      by (simp add: states_and_moves_def tables_nonempty_def)
        (rule run_table_inv [OF inv]; simp)
  next
    case GO_TO_CIRCLE3
    with ne show ?thesis
      by (simp add: states_and_moves_def tables_nonempty_def)
        (rule run_table_inv [OF inv]; simp)
  next
    case OPEN_BOX
    with ne show ?thesis
      by (simp add: states_and_moves_def tables_nonempty_def)
        (rule run_table_inv [OF inv]; simp)
  next
    case GRAB_EGGS1_PRE
    with ne show ?thesis
      by (simp add: states_and_moves_def tables_nonempty_def)
        (rule run_table_inv [OF inv]; simp)
  next
    case GRAB_EGGS2_PRE
    with ne show ?thesis
      by (simp add: states_and_moves_def tables_nonempty_def)
        (rule run_table_inv [OF inv]; simp)
  next
    case GRAB_EGGS3_PRE
    with ne show ?thesis
      by (simp add: states_and_moves_def tables_nonempty_def)
        (rule run_table_inv [OF inv]; simp)
  next
    case GRAB_EGGS4_PRE
    with ne show ?thesis
      by (simp add: states_and_moves_def tables_nonempty_def)
        (rule run_table_inv [OF inv]; simp)
  next
    case GRAB_EGGS5_PRE
    with ne show ?thesis
      by (simp add: states_and_moves_def tables_nonempty_def)
        (rule run_table_inv [OF inv]; simp)
  next
    case GRAB_EGGS6_PRE
    with ne show ?thesis
      by (simp add: states_and_moves_def tables_nonempty_def)
        (rule run_table_inv [OF inv]; simp)
  next
    case GRAB_EGGS1_POST
    with ne show ?thesis
      by (simp add: states_and_moves_def tables_nonempty_def)
        (rule run_table_inv [OF inv]; simp)
  next
    case GRAB_EGGS2_POST
    with ne show ?thesis
      by (simp add: states_and_moves_def tables_nonempty_def)
        (rule run_table_inv [OF inv]; simp)
  next
    case GRAB_EGGS3_POST
    with ne show ?thesis
      by (simp add: states_and_moves_def tables_nonempty_def)
        (rule run_table_inv [OF inv]; simp)
  next
    case GRAB_EGGS4_POST
    with ne show ?thesis
      by (simp add: states_and_moves_def tables_nonempty_def)
        (rule run_table_inv [OF inv]; simp)
  next
    case GRAB_EGGS5_POST
    with ne show ?thesis
      by (simp add: states_and_moves_def tables_nonempty_def)
        (rule run_table_inv [OF inv]; simp)
  next
    case GRAB_EGGS6_POST
    with ne show ?thesis
      by (simp add: states_and_moves_def tables_nonempty_def)
        (rule run_table_inv [OF inv]; simp)
  next
    case CLOSE_BOX
    with ne show ?thesis
      by (simp add: states_and_moves_def tables_nonempty_def)
        (rule run_table_inv [OF inv]; simp)
  next
    case SLEEP
    with ne show ?thesis
      by (simp add: states_and_moves_def tables_nonempty_def)
        (rule run_table_inv [OF inv]; simp)
  next
    case APPROACH_NPC
    with ne show ?thesis
      by (simp add: states_and_moves_def tables_nonempty_def)
        (rule run_table_inv [OF inv]; simp)
  next
    case FLY_TO_NURSERY
    with ne show ?thesis
      by (simp add: states_and_moves_def tables_nonempty_def)
        (intro conjI impI; rule run_table_inv [OF inv]; simp)
  next
    case SAVE
    with ne show ?thesis
      by (simp add: states_and_moves_def tables_nonempty_def)
        (intro conjI impI; rule run_table_inv [OF inv]; simp)
  next
    case SELECT_COL
    with ne e show ?thesis
      by (simp add: states_and_moves_def tables_nonempty_def)
        (intro conjI impI; (rule run_table_inv [OF inv]; simp)?; auto)
  next
    case SELECT_COL2
    with ne e show ?thesis
      by (simp add: states_and_moves_def tables_nonempty_def)
        (intro conjI impI; (rule run_table_inv [OF inv]; simp)?; auto)
  next
    case GO_TO_CIRCLE1
    show ?thesis
    proof (cases "egg_count s > 0")
      case True
      note r = run_table_inv [OF inv _ _ True refl refl refl refl]
      from True GO_TO_CIRCLE1 ne show ?thesis
        by (simp add: states_and_moves_def tables_nonempty_def one_le_word)
          ((intro conjI impI)?; rule r; simp)
    next
      case False
      with GO_TO_CIRCLE1 inv show ?thesis
        by (auto simp: states_and_moves_def engine_inv_def cursor_in_table_def one_le_word)
    qed
  next
    case GO_TO_CIRCLE2
    show ?thesis
    proof (cases "egg_count s > 0")
      case True
      note r = run_table_inv [OF inv _ _ True refl refl refl refl]
      from True GO_TO_CIRCLE2 ne show ?thesis
        by (simp add: states_and_moves_def tables_nonempty_def one_le_word)
          ((intro conjI impI)?; rule r; simp)
    next
      case False
      with GO_TO_CIRCLE2 inv show ?thesis
        by (auto simp: states_and_moves_def engine_inv_def cursor_in_table_def one_le_word)
    qed
  next
    case SYNC_CONTROLLER
    with idx e show ?thesis
      by (simp add: states_and_moves_def Let_def engine_inv_def cursor_in_table_def)
  next
    case CIRCLE1
    with e show ?thesis
      by (simp add: states_and_moves_def Let_def engine_inv_def cursor_in_table_def)
  next
    case CIRCLE_CW
    with e show ?thesis
      by (auto simp: states_and_moves_def Let_def engine_inv_def cursor_in_table_def)
  next
    case FLY_TO_NURSERY2
    with inv show ?thesis
      by (simp add: states_and_moves_def)
  next
    case DONE
    with inv show ?thesis
      by (simp add: states_and_moves_def engine_inv_def cursor_in_table_def)
  qed
qed


lemma engine_inv_echo [simp]:
  "engine_inv T (s\<lparr>echoes := e\<rparr>) = engine_inv T s"
  "engine_inv T (s\<lparr>last_report := l\<rparr>) = engine_inv T s"
  "engine_inv T (s\<lparr>portsval := p\<rparr>) = engine_inv T s"
  by (simp_all add: engine_inv_def cursor_in_table_def cong: option.case_cong)

lemma GetNextReport_inv:
  assumes inv: "engine_inv T s" and ne: "tables_nonempty T"
    and idx: "nat_dex_number C < length (egg_cycles C)"
  shows "\<exists>r s'. GetNextReport K T C fl b s = Some (r, s') \<and> engine_inv T s'"
proof (cases "0 < echoes s")
  case True
  with inv show ?thesis by (simp add: GetNextReport_echo)
next
  case False
  then have e: "echoes s \<le> 0" by simp
  show ?thesis
  proof (cases "state s = DONE")
    case True
    with inv show ?thesis by (simp add: GetNextReport_DONE [OF e])
  next
    case False
    from states_and_moves_inv [OF inv ne idx, of K fl "reset_report K b"]
    obtain r s' where "states_and_moves K T C fl (reset_report K b) s = Some (r, s')"
      and "engine_inv T s'" by blast
    then show ?thesis
      by (simp add: GetNextReport_tick [OF e False] echo_refill_def)
  qed
qed

lemma calls_inv:
  assumes "engine_inv T s" and "tables_nonempty T"
    and "nat_dex_number C < length (egg_cycles C)"
  shows "\<exists>rs s'. calls K T C fl bs s = Some (rs, s') \<and> length rs = length bs \<and> engine_inv T s'"
  using assms(1)
proof (induction bs arbitrary: s)
  case Nil
  then show ?case by simp
next
  case (Cons b bs)
  from GetNextReport_inv [OF Cons.prems assms(2,3), of K fl b]
  obtain r s1 where g: "GetNextReport K T C fl b s = Some (r, s1)" and i: "engine_inv T s1"
    by blast
  from Cons.IH [OF i] obtain rs s' where "calls K T C fl bs s1 = Some (rs, s')"
    "length rs = length bs" "engine_inv T s'" by blast
  with g show ?case by simp
qed

lemma initial_engine_inv: "engine_inv T (initial_engine K C)"
  by (simp add: engine_inv_def cursor_in_table_def initial_engine_def)

text \<open>
  C10. The initial engine has \<open>egg_set = 1\<close>. With a well-formed configuration, any number
  of calls of \<open>GetNextReport\<close> from the initial engine all return, and after them
  \<open>egg_set\<close> is one of 1, 2, 3, 4, 5, 6: \<open>do_steps\<close> moves it to the next column and
  from 6 back to 1, the two branches that skip a sequence set it to 1, and nothing else
  writes it. So the switches on \<open>egg_set\<close> in \<open>SELECT_COL\<close> and \<open>SELECT_COL2\<close> always
  find one of their six cases.
\<close>

theorem egg_set_invariant:
  assumes "tables_nonempty T" and "nat_dex_number C < length (egg_cycles C)"
  shows "egg_set (initial_engine K C) = 1
     \<and> (\<exists>rs s. calls K T C fl bs (initial_engine K C) = Some (rs, s)
           \<and> length rs = length bs \<and> egg_set s \<in> {1, 2, 3, 4, 5, 6})"
proof -
  have i: "engine_inv T (initial_engine K C)" by (rule initial_engine_inv)
  from calls_inv [OF i assms, of K fl bs]
  have "\<exists>rs s. calls K T C fl bs (initial_engine K C) = Some (rs, s)
           \<and> length rs = length bs \<and> egg_set s \<in> {1, 2, 3, 4, 5, 6}"
    unfolding engine_inv_def by blast
  moreover have "egg_set (initial_engine K C) = 1" by (simp add: initial_engine_def)
  ultimately show ?thesis by blast
qed

theorem egg_set_invariant_witness:
  "tables_nonempty demo_tables
   \<and> nat_dex_number demo_settings < length (egg_cycles demo_settings)
   \<and> (\<exists>rs s. calls pokken_pad demo_tables demo_settings exact
          (replicate 100 (last_report start_engine))
          (initial_engine pokken_pad demo_settings) = Some (rs, s)
        \<and> length rs = 100 \<and> egg_set s \<in> {1, 2, 3, 4, 5, 6})"
proof -
  have h1: "tables_nonempty demo_tables"
    by (simp add: tables_nonempty_def demo_tables_def two_steps_def)
  have h2: "nat_dex_number demo_settings < length (egg_cycles demo_settings)"
    by (simp add: demo_settings_def)
  from egg_set_invariant [OF h1 h2, of pokken_pad exact
      "replicate 100 (last_report start_engine)"] h1 h2
  show ?thesis by simp
qed


end
